theory Spec2Isabelle
  imports Complex_Main
begin

section \<open>The TelDrive driver: resumable chunked upload (drivers/teldrive/driver.go)\<close>

text \<open>
  The development embeds \<^verbatim>\<open>(*TelDrive).Put\<close> and the helpers it calls. Go's \<^verbatim>\<open>int64\<close>
  and \<^verbatim>\<open>int\<close> (64 bits wide on the platforms the driver is built for) are integers with the
  two's complement wrap-around written out (\<open>wrap64\<close>); Go strings and byte slices are
  lists of 8-bit characters. Everything outside the repository that \<^verbatim>\<open>Put\<close> talks to is a
  field of the record \<open>world\<close>: the three HTTP endpoints (a function from the request to the
  outcome of the call), \<^verbatim>\<open>crypto/md5\<close>, \<^verbatim>\<open>uuid.New\<close> and \<^verbatim>\<open>path.Join\<close>. The calls \<^verbatim>\<open>Put\<close> makes
  (HTTP requests, the discard of skipped bytes, the progress callback) are recorded, in
  order, in a list of events that is returned beside the result.
\<close>

subsection \<open>Machine integers\<close>

type_synonym byte = char

definition wrap64 :: "int \<Rightarrow> int" where
  "wrap64 x = (x + 2 ^ 63) mod 2 ^ 64 - 2 ^ 63"

definition add64 :: "int \<Rightarrow> int \<Rightarrow> int" where
  "add64 a b = wrap64 (a + b)"

definition sub64 :: "int \<Rightarrow> int \<Rightarrow> int" where
  "sub64 a b = wrap64 (a - b)"

definition mul64 :: "int \<Rightarrow> int \<Rightarrow> int" where
  "mul64 a b = wrap64 (a * b)"

text \<open>Go's integer division truncates towards zero; the caller checks for the zero divisor.\<close>

definition quo64 :: "int \<Rightarrow> int \<Rightarrow> int" where
  "quo64 a b = wrap64 (sgn a * sgn b * (\<bar>a\<bar> div \<bar>b\<bar>))"

subsection \<open>Formatting: strconv and fmt\<close>

definition digit_char :: "nat \<Rightarrow> char" where
  "digit_char n = ''0123456789'' ! n"

fun digits :: "nat \<Rightarrow> string" where
  "digits n = (if n < 10 then [digit_char n] else digits (n div 10) @ [digit_char (n mod 10)])"

declare digits.simps [simp del]

text \<open>\<^verbatim>\<open>strconv.Itoa\<close> and the verb \<^verbatim>\<open>%d\<close>.\<close>

definition Itoa :: "int \<Rightarrow> string" where
  "Itoa i = (if i < 0 then CHR ''-'' # digits (nat (- i)) else digits (nat i))"

text \<open>The verb \<^verbatim>\<open>%03d\<close>: at least three characters, zeros after the sign.\<close>

definition fmt_03d :: "int \<Rightarrow> string" where
  "fmt_03d i =
     (if i < 0 then CHR ''-'' # replicate (2 - length (digits (nat (- i)))) CHR ''0'' @ digits (nat (- i))
      else replicate (3 - length (digits (nat i))) CHR ''0'' @ digits (nat i))"

definition FormatBool :: "bool \<Rightarrow> string" where
  "FormatBool b = (if b then ''true'' else ''false'')"

definition is_digit :: "char \<Rightarrow> bool" where
  "is_digit c = (48 \<le> (of_char c :: nat) \<and> (of_char c :: nat) \<le> 57)"

definition digits_value :: "string \<Rightarrow> int" where
  "digits_value s = foldl (\<lambda>v c. 10 * v + (int (of_char c) - 48)) 0 s"

text \<open>
  \<^verbatim>\<open>strconv.ParseInt(s, 10, 64)\<close> with its error dropped, as \<^verbatim>\<open>Put\<close> calls it: 0 on a
  syntax error, the nearest bound on a range error.
\<close>

definition ParseInt :: "string \<Rightarrow> int" where
  "ParseInt s =
     (let neg = (s \<noteq> [] \<and> hd s = CHR ''-'');
          body = (if s \<noteq> [] \<and> (hd s = CHR ''-'' \<or> hd s = CHR ''+'') then tl s else s)
      in if body = [] \<or> \<not> list_all is_digit body then 0
         else if neg then max (- (2 ^ 63)) (- digits_value body)
         else min (2 ^ 63 - 1) (digits_value body))"

subsection \<open>The wire types\<close>

type_synonym Time = int

record TelDrive =
  AccessToken :: string
  ApiHost :: string
  UploadHost :: string
  ChannelID :: string
  ChunkSize :: int
  RandomChunkName :: bool
  EncryptFiles :: bool
  UploadConcurrency :: int
  userId :: int

record PartFile =
  pf_Name :: string
  PartId :: int
  PartNo :: int
  TotalParts :: int
  pf_Size :: int
  pf_ChannelID :: int
  pf_Encrypted :: bool
  pf_Salt :: string

record FilePart =
  fp_ID :: int
  fp_Salt :: string

record CreateFileRequest =
  cf_Name :: string
  cf_Type :: string
  cf_Path :: string
  cf_Size :: int
  cf_ChannelID :: int
  cf_Encrypted :: bool
  Parts :: "FilePart list"
  cf_ModTime :: Time

record FileInfo =
  fi_Id :: string
  fi_Name :: string
  fi_MimeType :: string
  fi_Size :: int
  fi_ParentId :: string
  fi_Type :: string
  fi_ModTime :: Time

record Object =
  obj_ID :: string
  obj_Name :: string
  obj_Size :: int
  obj_ModTime :: Time
  IsFolder :: bool
  obj_Path :: string
  obj_ParentID :: string

text \<open>
  The source stream (\<^verbatim>\<open>model.FileStreamer\<close>): its name, the size it reports, its
  modification time, and the bytes it will really supply before the end of the stream.
\<close>

record FileStreamer =
  GetName :: string
  GetSize :: int
  ModTime :: Time
  stream_data :: "byte list"

text \<open>The chunk upload request: the target URL, the five query parameters and the body.\<close>

record upload_request =
  uploadURL :: string
  partName :: string
  q_fileName :: string
  q_partNo :: string
  q_channelId :: string
  q_encrypted :: string
  body :: "byte list"

text \<open>
  The outcome of an HTTP call: the transport error, or the status code, the body as text
  (\<^verbatim>\<open>resp.String()\<close>) and what \<^verbatim>\<open>json.Unmarshal\<close> makes of the body for the type the
  caller decodes into (\<open>Inl\<close> its error).
\<close>

datatype 'a http_result =
    TransportErr string
  | Resp int string "string + 'a"

record world =
  md5_Sum :: "byte list \<Rightarrow> byte list"
  uuid_New :: "nat \<Rightarrow> string"
  path_Join :: "string \<Rightarrow> string \<Rightarrow> string"
  http_get_uploads :: "string \<Rightarrow> PartFile list http_result"
  http_post_upload :: "upload_request \<Rightarrow> PartFile http_result"
  http_post_files :: "CreateFileRequest \<Rightarrow> FileInfo http_result"

text \<open>
  The errors \<^verbatim>\<open>Put\<close> returns, one constructor for each message it formats (the messages
  are Chinese text in the source), with the text it interpolates: the upload of a file of
  unknown size is not supported (line 286); the chunk upload failed, with the transport
  error or the response body (lines 360 and 364); the chunk information could not be
  parsed, with the decoder's error (line 371); the chunk upload failed as no part id was
  received (line 375); the file could not be created, with the transport error or the
  response body (lines 411 and 415); the file information could not be parsed (line 422).
  \<open>DivideByZero\<close> is the run-time panic of the integer division of line 292.
\<close>

datatype error =
    UnknownSize
  | UploadChunkFailed string
  | ParseChunkFailed string
  | MissingPartId
  | CreateFileFailed string
  | ParseFileFailed string
  | DivideByZero

subsection \<open>The progress value\<close>

text \<open>
  The callback receives \<^verbatim>\<open>float64(uploadedSize) / float64(fileSize) * 100\<close>. The model
  computes the quotient exactly and keeps the three special values of a division by zero;
  rounding to 53 bits is not modelled (conversion, division by a positive number and
  multiplication by 100 are monotone under rounding, and \<open>x / x * 100\<close> is exactly 100).
\<close>

datatype float64 = Finite real | PosInf | NegInf | NaN

definition progress_value :: "int \<Rightarrow> int \<Rightarrow> float64" where
  "progress_value uploaded fsize =
     (if fsize = 0 then (if 0 < uploaded then PosInf else if uploaded < 0 then NegInf else NaN)
      else Finite (of_int uploaded / of_int fsize * 100))"

definition float_le :: "float64 \<Rightarrow> float64 \<Rightarrow> bool" where
  "float_le x y =
     (case x of
        NaN \<Rightarrow> False
      | NegInf \<Rightarrow> y \<noteq> NaN
      | PosInf \<Rightarrow> y = PosInf
      | Finite a \<Rightarrow> (case y of Finite b \<Rightarrow> a \<le> b | PosInf \<Rightarrow> True | _ \<Rightarrow> False))"

subsection \<open>getMD5Hash and the session identifier\<close>

definition hex_char :: "nat \<Rightarrow> char" where
  "hex_char n = ''0123456789abcdef'' ! n"

definition EncodeToString :: "byte list \<Rightarrow> string" where
  "EncodeToString bs = concat (map (\<lambda>b. [hex_char (of_char b div 16), hex_char (of_char b mod 16)]) bs)"

definition getMD5Hash :: "world \<Rightarrow> string \<Rightarrow> string" where
  "getMD5Hash w text = EncodeToString (md5_Sum w text)"

text \<open>\<^verbatim>\<open>fmt.Sprintf("%s:%s:%d:%d", parentPath, fileName, fileSize, d.userId)\<close>\<close>

definition session_text :: "string \<Rightarrow> string \<Rightarrow> int \<Rightarrow> int \<Rightarrow> string" where
  "session_text parentPath fileName fileSize uid =
     parentPath @ '':'' @ fileName @ '':'' @ Itoa fileSize @ '':'' @ Itoa uid"

subsection \<open>The stream operations\<close>

datatype io_error = EOF

text \<open>
  \<^verbatim>\<open>io.CopyN(io.Discard, file, n)\<close>: the bytes written, the error, the rest of the stream.
  Fewer than \<open>n\<close> bytes in the stream give \<open>EOF\<close>; \<open>n \<le> 0\<close> reads nothing.
\<close>

definition CopyN_Discard :: "byte list \<Rightarrow> int \<Rightarrow> int \<times> io_error option \<times> byte list" where
  "CopyN_Discard src n =
     (let written = int (length (take (nat n) src))
      in (written, (if written < n then Some EOF else None), drop (nat n) src))"

text \<open>
  \<^verbatim>\<open>io.LimitReader(file, n)\<close> read to its end by the HTTP client: the bytes of the body and
  the rest of the stream.
\<close>

definition LimitReader :: "byte list \<Rightarrow> int \<Rightarrow> byte list \<times> byte list" where
  "LimitReader src n = (take (nat n) src, drop (nat n) src)"

subsection \<open>The upload loop\<close>

text \<open>
  The events of an upload: the registry lookup with the path it requests; the skip of a
  chunk with its number, the registry part and the count of bytes \<^verbatim>\<open>io.CopyN\<close> reports;
  the transfer of a chunk with its number, the limit \<open>n\<close> of its reader and the request
  posted; a call of the progress callback with its argument; the create-file call with
  its request.
\<close>

datatype event =
    GetUploads string
  | Skip int PartFile int
  | Transfer int int upload_request
  | Progress float64
  | PostFiles CreateFileRequest

text \<open>
  What the loop reads but does not change (the locals of \<^verbatim>\<open>Put\<close> set before the loop), and
  what it changes. \<open>uuids\<close> counts the calls of \<^verbatim>\<open>uuid.New\<close>; \<open>abort\<close> is the error of an
  early return.
\<close>

record upload_info =
  fileName :: string
  fileSize :: int
  uploadID :: string
  existingChunks :: "int \<rightharpoonup> PartFile"
  chunkSize :: int
  totalChunks :: int

record loop_state =
  source :: "byte list"
  partsToCommit :: "PartFile list"
  uploadedSize :: int
  uuids :: nat
  trace :: "event list"
  abort :: "error option"

text \<open>The branch of an existing chunk (lines 315 to 322).\<close>

definition skip_chunk :: "upload_info \<Rightarrow> int \<Rightarrow> PartFile \<Rightarrow> loop_state \<Rightarrow> loop_state" where
  "skip_chunk u chunkNo existing st =
     (case CopyN_Discard (source st) (pf_Size existing) of
        (written, err, rest) \<Rightarrow>
          (let uploaded = add64 (uploadedSize st) (pf_Size existing)
           in st\<lparr>source := rest,
                 partsToCommit := partsToCommit st @ [existing],
                 uploadedSize := uploaded,
                 trace := trace st @ [Skip chunkNo existing written,
                                      Progress (progress_value uploaded (fileSize u))]\<rparr>))"

text \<open>The length of a chunk to transfer (lines 324 to 327).\<close>

definition chunk_length :: "upload_info \<Rightarrow> int \<Rightarrow> int \<Rightarrow> int" where
  "chunk_length u chunkNo uploaded =
     (if chunkNo = totalChunks u then sub64 (fileSize u) uploaded else chunkSize u)"

text \<open>The name of a chunk to transfer (lines 329 to 334); \<open>k\<close> numbers the call of \<^verbatim>\<open>uuid.New\<close>.\<close>

definition chunk_name :: "world \<Rightarrow> TelDrive \<Rightarrow> upload_info \<Rightarrow> int \<Rightarrow> nat \<Rightarrow> string" where
  "chunk_name w d u chunkNo k =
     (if RandomChunkName d then getMD5Hash w (uuid_New w k)
      else if 1 < totalChunks u then fileName u @ ''.part.'' @ fmt_03d chunkNo
      else fileName u)"

definition upload_request_of :: "world \<Rightarrow> TelDrive \<Rightarrow> upload_info \<Rightarrow> int \<Rightarrow> nat \<Rightarrow> byte list \<Rightarrow> upload_request" where
  "upload_request_of w d u chunkNo k partReader =
     \<lparr>uploadURL = (if UploadHost d \<noteq> [] then UploadHost d @ ''/api/uploads/'' @ uploadID u
                   else ApiHost d @ ''/api/uploads/'' @ uploadID u),
      partName = chunk_name w d u chunkNo k,
      q_fileName = fileName u,
      q_partNo = Itoa chunkNo,
      q_channelId = ChannelID d,
      q_encrypted = FormatBool (EncryptFiles d),
      body = partReader\<rparr>"

text \<open>The four checks on the answer to a chunk upload (lines 359 to 376).\<close>

fun part_of_response :: "PartFile http_result \<Rightarrow> error + PartFile" where
  "part_of_response (TransportErr e) = Inl (UploadChunkFailed e)"
| "part_of_response (Resp status text decoded) =
     (if status \<noteq> 200 then Inl (UploadChunkFailed text)
      else case decoded of
             Inl e \<Rightarrow> Inl (ParseChunkFailed e)
           | Inr partInfo \<Rightarrow> if PartId partInfo = 0 then Inl MissingPartId else Inr partInfo)"

text \<open>The branch of a chunk to transfer (lines 324 to 380).\<close>

definition transfer_chunk :: "world \<Rightarrow> TelDrive \<Rightarrow> upload_info \<Rightarrow> int \<Rightarrow> loop_state \<Rightarrow> loop_state" where
  "transfer_chunk w d u chunkNo st =
     (let n = chunk_length u chunkNo (uploadedSize st);
          k = uuids st;
          (partReader, rest) = LimitReader (source st) n;
          req = upload_request_of w d u chunkNo k partReader;
          st1 = st\<lparr>source := rest,
                   uuids := (if RandomChunkName d then Suc k else k),
                   trace := trace st @ [Transfer chunkNo n req]\<rparr>
      in case part_of_response (http_post_upload w req) of
           Inl e \<Rightarrow> st1\<lparr>abort := Some e\<rparr>
         | Inr partInfo \<Rightarrow>
             (let uploaded = add64 (uploadedSize st) n
              in st1\<lparr>uploadedSize := uploaded,
                      partsToCommit := partsToCommit st @ [partInfo],
                      trace := trace st1 @ [Progress (progress_value uploaded (fileSize u))]\<rparr>))"

definition chunk_step :: "world \<Rightarrow> TelDrive \<Rightarrow> upload_info \<Rightarrow> int \<Rightarrow> loop_state \<Rightarrow> loop_state" where
  "chunk_step w d u chunkNo st =
     (case existingChunks u chunkNo of
        Some existing \<Rightarrow> skip_chunk u chunkNo existing st
      | None \<Rightarrow> transfer_chunk w d u chunkNo st)"

text \<open>
  \<^verbatim>\<open>for chunkNo := 1; chunkNo <= int(totalChunks); chunkNo++\<close>, left by the early returns
  of a failed transfer. The counter is not wrapped: \<open>totalChunks\<close> is a quotient by a
  non-zero multiple of \<open>2 ^ 20\<close>, at most \<open>2 ^ 43\<close> (lemma \<open>total_chunks_small\<close>).
\<close>

function upload_loop :: "world \<Rightarrow> TelDrive \<Rightarrow> upload_info \<Rightarrow> int \<Rightarrow> loop_state \<Rightarrow> loop_state" where
  "upload_loop w d u chunkNo st =
     (if chunkNo \<le> totalChunks u then
        (let st' = chunk_step w d u chunkNo st
         in if abort st' = None then upload_loop w d u (chunkNo + 1) st' else st')
      else st)"
  by pat_completeness auto
termination
  by (relation "measure (\<lambda>(w, d, u, chunkNo, st). nat (totalChunks u + 1 - chunkNo))") auto

declare upload_loop.simps [simp del]

subsection \<open>Put\<close>

text \<open>The map built from the answer of the registry (lines 298 to 308).\<close>

fun registry_parts :: "PartFile list http_result \<Rightarrow> PartFile list" where
  "registry_parts (TransportErr e) = []"
| "registry_parts (Resp status text decoded) =
     (if status = 200 then (case decoded of Inl e \<Rightarrow> [] | Inr parts \<Rightarrow> parts) else [])"

definition existing_map :: "PartFile list \<Rightarrow> (int \<rightharpoonup> PartFile)" where
  "existing_map parts = foldl (\<lambda>m part. m(PartNo part \<mapsto> part)) Map.empty parts"

text \<open>The locals of \<^verbatim>\<open>Put\<close> set before the loop (lines 277 to 308).\<close>

definition parent_path :: "string \<Rightarrow> string" where
  "parent_path dstPath = (if dstPath = ''/'' then [] else dstPath)"

definition chunk_bytes :: "TelDrive \<Rightarrow> int" where
  "chunk_bytes d = mul64 (mul64 (ChunkSize d) 1024) 1024"

definition total_chunks :: "TelDrive \<Rightarrow> FileStreamer \<Rightarrow> int" where
  "total_chunks d file = quo64 (sub64 (add64 (GetSize file) (chunk_bytes d)) 1) (chunk_bytes d)"

definition upload_id :: "world \<Rightarrow> TelDrive \<Rightarrow> string \<Rightarrow> FileStreamer \<Rightarrow> string" where
  "upload_id w d dstPath file =
     getMD5Hash w (session_text (parent_path dstPath) (GetName file) (GetSize file) (userId d))"

definition registry :: "world \<Rightarrow> TelDrive \<Rightarrow> string \<Rightarrow> FileStreamer \<Rightarrow> (int \<rightharpoonup> PartFile)" where
  "registry w d dstPath file =
     existing_map (registry_parts (http_get_uploads w (''/api/uploads/'' @ upload_id w d dstPath file)))"

definition upload_info_of :: "world \<Rightarrow> TelDrive \<Rightarrow> string \<Rightarrow> FileStreamer \<Rightarrow> upload_info" where
  "upload_info_of w d dstPath file =
     \<lparr>fileName = GetName file, fileSize = GetSize file, uploadID = upload_id w d dstPath file,
      existingChunks = registry w d dstPath file,
      chunkSize = chunk_bytes d, totalChunks = total_chunks d file\<rparr>"

definition initial_state :: "world \<Rightarrow> TelDrive \<Rightarrow> string \<Rightarrow> FileStreamer \<Rightarrow> loop_state" where
  "initial_state w d dstPath file =
     \<lparr>source = stream_data file, partsToCommit = [], uploadedSize = 0, uuids = 0,
      trace = [GetUploads (''/api/uploads/'' @ upload_id w d dstPath file)], abort = None\<rparr>"

text \<open>
  The manifest and the create-file request (lines 383 to 404). \<^verbatim>\<open>sort.Slice\<close> is modelled
  by the insertion sort of the library: Go runs an insertion sort too up to twelve
  elements, and on pairwise different keys every sort gives the same list.
\<close>

definition file_chunks :: "PartFile list \<Rightarrow> FilePart list" where
  "file_chunks parts = map (\<lambda>part. \<lparr>fp_ID = PartId part, fp_Salt = pf_Salt part\<rparr>) parts"

definition create_file_request :: "world \<Rightarrow> TelDrive \<Rightarrow> string \<Rightarrow> FileStreamer \<Rightarrow> PartFile list \<Rightarrow> CreateFileRequest" where
  "create_file_request w d dstPath file parts =
     \<lparr>cf_Name = GetName file, cf_Type = ''file'',
      cf_Path = path_Join w (parent_path dstPath) (GetName file), cf_Size = GetSize file,
      cf_ChannelID = ParseInt (ChannelID d), cf_Encrypted = EncryptFiles d,
      Parts = file_chunks (sort_key PartNo parts),
      cf_ModTime = ModTime file\<rparr>"

text \<open>The answer to the create-file call (lines 410 to 434).\<close>

fun created_object :: "world \<Rightarrow> string \<Rightarrow> FileStreamer \<Rightarrow> FileInfo http_result \<Rightarrow> error + Object" where
  "created_object w dstPath file (TransportErr e) = Inl (CreateFileFailed e)"
| "created_object w dstPath file (Resp status text decoded) =
     (if status \<noteq> 200 then Inl (CreateFileFailed text)
      else case decoded of
             Inl e \<Rightarrow> Inl (ParseFileFailed e)
           | Inr fileInfo \<Rightarrow>
               Inr \<lparr>obj_ID = fi_Id fileInfo, obj_Name = GetName file, obj_Size = GetSize file,
                    obj_ModTime = fi_ModTime fileInfo, IsFolder = False,
                    obj_Path = path_Join w (parent_path dstPath) (GetName file),
                    obj_ParentID = fi_ParentId fileInfo\<rparr>)"

text \<open>
  \<^verbatim>\<open>Put\<close>: the result and the events in the order they happen. A negative size is refused
  first (line 285); a chunk size of zero bytes makes the division of line 292 panic.
\<close>

definition Put :: "world \<Rightarrow> TelDrive \<Rightarrow> string \<Rightarrow> FileStreamer \<Rightarrow> (error + Object) \<times> event list" where
  "Put w d dstPath file =
     (if GetSize file < 0 then (Inl UnknownSize, [])
      else if chunk_bytes d = 0 then (Inl DivideByZero, [])
      else
        (let st = upload_loop w d (upload_info_of w d dstPath file) 1 (initial_state w d dstPath file)
         in case abort st of
              Some e \<Rightarrow> (Inl e, trace st)
            | None \<Rightarrow>
                (let createFileReq = create_file_request w d dstPath file (partsToCommit st)
                 in (created_object w dstPath file (http_post_files w createFileReq),
                     trace st @ [PostFiles createFileReq]))))"

subsection \<open>Reading the events\<close>

fun ev_chunk :: "event \<Rightarrow> int list" where
  "ev_chunk (Skip k e written) = [k]"
| "ev_chunk (Transfer k n r) = [k]"
| "ev_chunk _ = []"

fun ev_skip :: "event \<Rightarrow> (int \<times> PartFile \<times> int) list" where
  "ev_skip (Skip k e written) = [(k, e, written)]"
| "ev_skip _ = []"

fun ev_transfer :: "event \<Rightarrow> (int \<times> int \<times> upload_request) list" where
  "ev_transfer (Transfer k n r) = [(k, n, r)]"
| "ev_transfer _ = []"

fun ev_progress :: "event \<Rightarrow> float64 list" where
  "ev_progress (Progress v) = [v]"
| "ev_progress _ = []"

fun ev_commit :: "event \<Rightarrow> CreateFileRequest list" where
  "ev_commit (PostFiles r) = [r]"
| "ev_commit _ = []"

fun ev_lookup :: "event \<Rightarrow> string list" where
  "ev_lookup (GetUploads url) = [url]"
| "ev_lookup _ = []"

text \<open>The chunk numbers handled, the skips, the transfers, the progress values, the commits
  and the registry lookups of a list of events, each in order.\<close>

definition chunk_nos :: "event list \<Rightarrow> int list" where
  "chunk_nos tr = concat (map ev_chunk tr)"

definition skips :: "event list \<Rightarrow> (int \<times> PartFile \<times> int) list" where
  "skips tr = concat (map ev_skip tr)"

definition transfers :: "event list \<Rightarrow> (int \<times> int \<times> upload_request) list" where
  "transfers tr = concat (map ev_transfer tr)"

definition progress_values :: "event list \<Rightarrow> float64 list" where
  "progress_values tr = concat (map ev_progress tr)"

definition commits :: "event list \<Rightarrow> CreateFileRequest list" where
  "commits tr = concat (map ev_commit tr)"

definition lookups :: "event list \<Rightarrow> string list" where
  "lookups tr = concat (map ev_lookup tr)"

text \<open>The length of each chunk handled: the recorded size of a part skipped, the length
  of the bounded reader of a chunk sent.\<close>

fun ev_length :: "event \<Rightarrow> int list" where
  "ev_length (Skip k e written) = [pf_Size e]"
| "ev_length (Transfer k n r) = [n]"
| "ev_length _ = []"

definition chunk_lengths :: "event list \<Rightarrow> int list" where
  "chunk_lengths tr = concat (map ev_length tr)"

section \<open>What a run leaves behind\<close>

text \<open>The request of the next transfer, from the state before it.\<close>

definition next_request :: "world \<Rightarrow> TelDrive \<Rightarrow> upload_info \<Rightarrow> int \<Rightarrow> loop_state \<Rightarrow> upload_request" where
  "next_request w d u k st =
     upload_request_of w d u k (uuids st) (take (nat (chunk_length u k (uploadedSize st))) (source st))"

text \<open>
  The part each event contributes to the manifest, with the number of its chunk: the
  registry's part for a skip, the part in the server's answer for a transfer that
  succeeded.
\<close>

fun ev_part :: "world \<Rightarrow> event \<Rightarrow> (int \<times> PartFile) list" where
  "ev_part w (Skip k e written) = [(k, e)]"
| "ev_part w (Transfer k n r) =
     (case part_of_response (http_post_upload w r) of Inl e \<Rightarrow> [] | Inr p \<Rightarrow> [(k, p)])"
| "ev_part w _ = []"

definition chunk_parts :: "world \<Rightarrow> event list \<Rightarrow> (int \<times> PartFile) list" where
  "chunk_parts w tr = concat (map (ev_part w) tr)"

text \<open>
  The events before chunk \<open>j\<close>: chunks 1 to \<open>j - 1\<close> were handled in order, each one skipped
  with its registry part or transferred with success because the registry has none, and
  nothing was committed.
\<close>

definition events_ok :: "world \<Rightarrow> upload_info \<Rightarrow> int \<Rightarrow> event list \<Rightarrow> bool" where
  "events_ok w u j tr \<longleftrightarrow>
     chunk_nos tr = [1..j - 1] \<and>
     map fst (chunk_parts w tr) = [1..j - 1] \<and>
     (\<forall>(k, e, written) \<in> set (skips tr). existingChunks u k = Some e) \<and>
     (\<forall>(k, n, r) \<in> set (transfers tr).
        existingChunks u k = None \<and> (\<exists>p. part_of_response (http_post_upload w r) = Inr p)) \<and>
     commits tr = []"

definition loop_inv :: "world \<Rightarrow> upload_info \<Rightarrow> int \<Rightarrow> loop_state \<Rightarrow> bool" where
  "loop_inv w u j s \<longleftrightarrow>
     abort s = None \<and> 1 \<le> j \<and> (j = 1 \<or> j \<le> totalChunks u + 1) \<and>
     partsToCommit s = map snd (chunk_parts w (trace s)) \<and> events_ok w u j (trace s)"

text \<open>After the loop: every chunk was handled, or the last event is the transfer that failed.\<close>

definition loop_post :: "world \<Rightarrow> upload_info \<Rightarrow> loop_state \<Rightarrow> bool" where
  "loop_post w u s \<longleftrightarrow>
     (abort s = None \<and> partsToCommit s = map snd (chunk_parts w (trace s)) \<and>
      events_ok w u (totalChunks u + 1) (trace s)) \<or>
     (\<exists>e j n r pre. abort s = Some e \<and> trace s = pre @ [Transfer j n r] \<and>
        part_of_response (http_post_upload w r) = Inl e \<and> existingChunks u j = None \<and>
        1 \<le> j \<and> j \<le> totalChunks u \<and> events_ok w u j pre)"

definition final_state :: "world \<Rightarrow> TelDrive \<Rightarrow> string \<Rightarrow> FileStreamer \<Rightarrow> loop_state" where
  "final_state w d p f = upload_loop w d (upload_info_of w d p f) 1 (initial_state w d p f)"


text \<open>
  The bytes accounted for after \<open>k\<close> chunks of the plan, the conditions under which the
  loop follows the plan (no overflow, and a registry whose parts have the planned
  lengths), and what then holds before chunk \<open>j\<close> and after the loop.
\<close>

definition offset_after :: "upload_info \<Rightarrow> int \<Rightarrow> int" where
  "offset_after u k = min (k * chunkSize u) (fileSize u)"

definition plan_ok :: "upload_info \<Rightarrow> bool" where
  "plan_ok u \<longleftrightarrow>
     0 \<le> fileSize u \<and> fileSize u < 2 ^ 63 \<and> 0 < chunkSize u \<and>
     totalChunks u = (fileSize u + chunkSize u - 1) div chunkSize u \<and>
     (\<forall>k e. existingChunks u k = Some e \<longrightarrow> 1 \<le> k \<longrightarrow> k \<le> totalChunks u \<longrightarrow>
        pf_Size e = (if k = totalChunks u then fileSize u - (totalChunks u - 1) * chunkSize u
                     else chunkSize u))"

definition plan_inv :: "upload_info \<Rightarrow> int \<Rightarrow> loop_state \<Rightarrow> bool" where
  "plan_inv u j s \<longleftrightarrow>
     abort s = None \<and> 1 \<le> j \<and>
     uploadedSize s = offset_after u (j - 1) \<and>
     chunk_lengths (trace s) = map (\<lambda>k. offset_after u k - offset_after u (k - 1)) [1..j - 1] \<and>
     progress_values (trace s) = map (\<lambda>k. progress_value (offset_after u k) (fileSize u)) [1..j - 1] \<and>
     (1 < j \<longrightarrow> last (trace s) = Progress (progress_value (offset_after u (j - 1)) (fileSize u)))"

definition plan_post :: "upload_info \<Rightarrow> loop_state \<Rightarrow> bool" where
  "plan_post u s \<longleftrightarrow>
     (\<exists>m. 0 \<le> m \<and> m \<le> totalChunks u \<and>
        chunk_lengths (trace s) = map (\<lambda>k. offset_after u k - offset_after u (k - 1)) [1..m] \<and>
        ((abort s = None \<and> m = totalChunks u \<and>
          progress_values (trace s)
            = map (\<lambda>k. progress_value (offset_after u k) (fileSize u)) [1..m] \<and>
          (1 \<le> m \<longrightarrow> last (trace s) = Progress (progress_value (offset_after u m) (fileSize u)))) \<or>
         (abort s \<noteq> None \<and> 1 \<le> m \<and>
          progress_values (trace s)
            = map (\<lambda>k. progress_value (offset_after u k) (fileSize u)) [1..m - 1])))"

text \<open>Every part the registry holds for a planned chunk has the planned length of that chunk.\<close>

definition registry_matches_plan :: "world \<Rightarrow> TelDrive \<Rightarrow> string \<Rightarrow> FileStreamer \<Rightarrow> bool" where
  "registry_matches_plan w d p f \<longleftrightarrow>
     (\<forall>k e. registry w d p f k = Some e \<longrightarrow> 1 \<le> k \<longrightarrow> k \<le> total_chunks d f \<longrightarrow>
        pf_Size e = (if k = total_chunks d f
                     then GetSize f - (total_chunks d f - 1) * chunk_bytes d
                     else chunk_bytes d))"

text \<open>
  Reading the stream along the events: every skip discards the recorded size of its part
  from the current position (all that is left when the stream is shorter) and reports
  that count, every transfer sends the next \<open>n\<close> bytes. The result is the rest of the
  stream, or \<open>None\<close> when an event does not fit.
\<close>

fun replay :: "byte list \<Rightarrow> event list \<Rightarrow> byte list option" where
  "replay src [] = Some src"
| "replay src (Skip k e written # evs) =
     (if written = int (length (take (nat (pf_Size e)) src))
      then replay (drop (nat (pf_Size e)) src) evs else None)"
| "replay src (Transfer k n r # evs) =
     (if body r = take (nat n) src then replay (drop (nat n) src) evs else None)"
| "replay src (GetUploads url # evs) = replay src evs"
| "replay src (Progress v # evs) = replay src evs"
| "replay src (PostFiles req # evs) = replay src evs"

section \<open>Sample uploads\<close>

text \<open>
  Concrete collaborators for the worked examples: a part record, a drive with a chunk size
  in megabytes and the naming flag, a file of a given reported size and content, and a
  world around a registry answer and a chunk server. The stand-in for MD5 is the identity
  and the \<open>k\<close>-th identifier drawn is \<open>k\<close> letters long.
\<close>

definition a_part :: "int \<Rightarrow> int \<Rightarrow> int \<Rightarrow> PartFile" where
  "a_part pid pno sz =
     \<lparr>pf_Name = [], PartId = pid, PartNo = pno, TotalParts = 0, pf_Size = sz,
      pf_ChannelID = 5, pf_Encrypted = False, pf_Salt = []\<rparr>"

definition a_drive :: "int \<Rightarrow> bool \<Rightarrow> TelDrive" where
  "a_drive mb random =
     \<lparr>AccessToken = ''token'', ApiHost = ''http://api'', UploadHost = [], ChannelID = ''5'',
      ChunkSize = mb, RandomChunkName = random, EncryptFiles = False, UploadConcurrency = 4,
      userId = 9\<rparr>"

definition a_file :: "int \<Rightarrow> byte list \<Rightarrow> FileStreamer" where
  "a_file sz bytes = \<lparr>GetName = ''a.bin'', GetSize = sz, ModTime = 3, stream_data = bytes\<rparr>"

definition file_created :: "CreateFileRequest \<Rightarrow> FileInfo http_result" where
  "file_created r =
     Resp 200 [] (Inr \<lparr>fi_Id = ''f1'', fi_Name = cf_Name r, fi_MimeType = [], fi_Size = cf_Size r,
                         fi_ParentId = ''root'', fi_Type = ''file'', fi_ModTime = 7\<rparr>)"

definition a_world :: "PartFile list http_result \<Rightarrow> (upload_request \<Rightarrow> PartFile http_result) \<Rightarrow> world" where
  "a_world reg srv =
     \<lparr>md5_Sum = (\<lambda>bs. bs), uuid_New = (\<lambda>k. replicate (Suc k) CHR ''u''),
      path_Join = (\<lambda>a b. a @ ''/'' @ b),
      http_get_uploads = (\<lambda>url. reg), http_post_upload = srv, http_post_files = file_created\<rparr>"

text \<open>A server that stores every chunk and reports its number back; one that stores it
  and leaves the number out of its answer; one that answers a given chunk with a zero
  part id; one that answers a given chunk with status 500.\<close>

definition echo_server :: "upload_request \<Rightarrow> PartFile http_result" where
  "echo_server r =
     Resp 200 [] (Inr (a_part (20 + ParseInt (q_partNo r)) (ParseInt (q_partNo r)) (int (length (body r)))))"

definition mute_server :: "upload_request \<Rightarrow> PartFile http_result" where
  "mute_server r = Resp 200 [] (Inr (a_part (20 + ParseInt (q_partNo r)) 0 (int (length (body r)))))"

definition no_id_server :: "int \<Rightarrow> upload_request \<Rightarrow> PartFile http_result" where
  "no_id_server k r =
     (if ParseInt (q_partNo r) = k then Resp 200 [] (Inr (a_part 0 k (int (length (body r)))))
      else echo_server r)"

definition failing_server :: "int \<Rightarrow> upload_request \<Rightarrow> PartFile http_result" where
  "failing_server k r =
     (if ParseInt (q_partNo r) = k then Resp 500 ''internal error'' (Inl ''no json'')
      else echo_server r)"

text \<open>A file of 3000000 bytes: three chunks of one megabyte (1048576, 1048576, 902848).\<close>

definition three_chunks :: FileStreamer where
  "three_chunks = a_file 3000000 (replicate 3000000 CHR ''x'')"

definition no_parts :: "PartFile list http_result" where
  "no_parts = Resp 200 [] (Inr [])"

text \<open>A registry that holds the first chunk of that file, and a file of a single chunk.\<close>

definition first_part_stored :: "PartFile list http_result" where
  "first_part_stored = Resp 200 [] (Inr [a_part 11 1 1048576])"

definition one_chunk :: FileStreamer where
  "one_chunk = a_file 1000 (replicate 1000 CHR ''x'')"

text \<open>
  The file of the planning example (1200000000 bytes); a file of two and a half megabytes
  with a registry that holds a first part of two megabytes, left by an attempt with a
  larger chunk size; a file of two chunks.
\<close>

definition large_file :: FileStreamer where
  "large_file = a_file 1200000000 (replicate 1200000000 CHR ''x'')"

definition two_and_a_half :: FileStreamer where
  "two_and_a_half = a_file 2621440 (replicate 2621440 CHR ''x'')"

definition stale_part :: "PartFile list http_result" where
  "stale_part = Resp 200 [] (Inr [a_part 11 1 2097152])"

definition two_chunks :: FileStreamer where
  "two_chunks = a_file 2000000 (replicate 2000000 CHR ''x'')"

section \<open>Properties\<close>

subsection \<open>The loop, step by step\<close>

lemma skip_chunk_fields [simp]:
  "source (skip_chunk u k e st) = drop (nat (pf_Size e)) (source st)"
  "partsToCommit (skip_chunk u k e st) = partsToCommit st @ [e]"
  "uploadedSize (skip_chunk u k e st) = add64 (uploadedSize st) (pf_Size e)"
  "uuids (skip_chunk u k e st) = uuids st"
  "abort (skip_chunk u k e st) = abort st"
  "trace (skip_chunk u k e st) =
     trace st @ [Skip k e (int (length (take (nat (pf_Size e)) (source st)))),
                 Progress (progress_value (add64 (uploadedSize st) (pf_Size e)) (fileSize u))]"
  by (simp_all add: skip_chunk_def CopyN_Discard_def Let_def)

lemma transfer_chunk_fail:
  assumes "part_of_response (http_post_upload w (next_request w d u k st)) = Inl e"
  shows "abort (transfer_chunk w d u k st) = Some e"
    and "trace (transfer_chunk w d u k st) =
           trace st @ [Transfer k (chunk_length u k (uploadedSize st)) (next_request w d u k st)]"
    and "partsToCommit (transfer_chunk w d u k st) = partsToCommit st"
    and "uploadedSize (transfer_chunk w d u k st) = uploadedSize st"
    and "source (transfer_chunk w d u k st) = drop (nat (chunk_length u k (uploadedSize st))) (source st)"
    and "uuids (transfer_chunk w d u k st) = (if RandomChunkName d then Suc (uuids st) else uuids st)"
  using assms by (simp_all add: transfer_chunk_def next_request_def LimitReader_def Let_def)

lemma transfer_chunk_ok:
  assumes "part_of_response (http_post_upload w (next_request w d u k st)) = Inr p"
  shows "abort (transfer_chunk w d u k st) = abort st"
    and "trace (transfer_chunk w d u k st) =
           trace st @ [Transfer k (chunk_length u k (uploadedSize st)) (next_request w d u k st),
                       Progress (progress_value (add64 (uploadedSize st) (chunk_length u k (uploadedSize st))) (fileSize u))]"
    and "partsToCommit (transfer_chunk w d u k st) = partsToCommit st @ [p]"
    and "uploadedSize (transfer_chunk w d u k st) = add64 (uploadedSize st) (chunk_length u k (uploadedSize st))"
    and "source (transfer_chunk w d u k st) = drop (nat (chunk_length u k (uploadedSize st))) (source st)"
    and "uuids (transfer_chunk w d u k st) = (if RandomChunkName d then Suc (uuids st) else uuids st)"
  using assms by (simp_all add: transfer_chunk_def next_request_def LimitReader_def Let_def)

lemma upload_loop_rule:
  assumes init: "I k st"
    and step: "\<And>j s. I j s \<Longrightarrow> j \<le> totalChunks u \<Longrightarrow> abort (chunk_step w d u j s) = None
                 \<Longrightarrow> I (j + 1) (chunk_step w d u j s)"
    and finish: "\<And>j s. I j s \<Longrightarrow> totalChunks u < j \<Longrightarrow> Q s"
    and stop: "\<And>j s. I j s \<Longrightarrow> j \<le> totalChunks u \<Longrightarrow> abort (chunk_step w d u j s) \<noteq> None
                 \<Longrightarrow> Q (chunk_step w d u j s)"
  shows "Q (upload_loop w d u k st)"
  using init
proof (induction "nat (totalChunks u + 1 - k)" arbitrary: k st)
  case 0
  then have "totalChunks u < k" by simp
  with 0 finish show ?case by (simp add: upload_loop.simps)
next
  case (Suc m)
  then have le: "k \<le> totalChunks u" by simp
  show ?case
  proof (cases "abort (chunk_step w d u k st) = None")
    case True
    have "m = nat (totalChunks u + 1 - (k + 1))" using Suc.hyps(2) by simp
    moreover have "I (k + 1) (chunk_step w d u k st)" using step Suc.prems le True by blast
    ultimately have "Q (upload_loop w d u (k + 1) (chunk_step w d u k st))"
      using Suc.hyps(1) by blast
    with le True show ?thesis by (simp add: upload_loop.simps [of w d u k st] Let_def)
  next
    case False
    with stop Suc.prems le have "Q (chunk_step w d u k st)" by blast
    with le False show ?thesis by (auto simp add: upload_loop.simps [of w d u k st] Let_def)
  qed
qed

lemmas proj_defs = chunk_nos_def skips_def transfers_def progress_values_def commits_def
  lookups_def chunk_parts_def

lemma chunk_step_skip:
  "existingChunks u k = Some e \<Longrightarrow> chunk_step w d u k s = skip_chunk u k e s"
  by (simp add: chunk_step_def)

lemma chunk_step_transfer:
  "existingChunks u k = None \<Longrightarrow> chunk_step w d u k s = transfer_chunk w d u k s"
  by (simp add: chunk_step_def)

lemma chunk_step_cases:
  obtains (skip) e where "existingChunks u k = Some e" "chunk_step w d u k s = skip_chunk u k e s"
  | (sent) part where "existingChunks u k = None"
      "part_of_response (http_post_upload w (next_request w d u k s)) = Inr part"
      "chunk_step w d u k s = transfer_chunk w d u k s"
  | (failed) e where "existingChunks u k = None"
      "part_of_response (http_post_upload w (next_request w d u k s)) = Inl e"
      "chunk_step w d u k s = transfer_chunk w d u k s"
proof (cases "existingChunks u k")
  case None
  then show ?thesis
    by (cases "part_of_response (http_post_upload w (next_request w d u k s))")
       (auto intro: sent failed simp add: chunk_step_transfer)
next
  case (Some e)
  then show ?thesis by (auto intro: skip simp add: chunk_step_skip)
qed

lemma upto_small: "[1..1] = [1]" "[1..2] = [1, 2]" "[1..3] = [1, 2, 3]"
  by (simp_all add: upto.simps)

lemma upto_snoc: "1 \<le> j \<Longrightarrow> [1..j] = [1..j - 1] @ [j]"
  by (simp add: upto_rec2)

lemma loop_inv_step:
  assumes "loop_inv w u j s" "j \<le> totalChunks u" "abort (chunk_step w d u j s) = None"
  shows "loop_inv w u (j + 1) (chunk_step w d u j s)"
proof (cases "existingChunks u j")
  case (Some e)
  with assms show ?thesis
    by (auto simp add: loop_inv_def events_ok_def chunk_step_skip proj_defs upto_snoc)
next
  case None
  show ?thesis
  proof (cases "part_of_response (http_post_upload w (next_request w d u j s))")
    case (Inl e)
    with assms None show ?thesis by (simp add: chunk_step_transfer transfer_chunk_fail)
  next
    case (Inr p)
    with assms None show ?thesis
      by (auto simp add: loop_inv_def events_ok_def chunk_step_transfer transfer_chunk_ok proj_defs upto_snoc)
  qed
qed

lemma loop_inv_stop:
  assumes "loop_inv w u j s" "j \<le> totalChunks u" "abort (chunk_step w d u j s) \<noteq> None"
  shows "loop_post w u (chunk_step w d u j s)"
proof (cases "existingChunks u j")
  case (Some e)
  with assms show ?thesis by (simp add: loop_inv_def chunk_step_skip)
next
  case None
  show ?thesis
  proof (cases "part_of_response (http_post_upload w (next_request w d u j s))")
    case (Inl e)
    with assms None show ?thesis
      by (auto simp add: loop_inv_def loop_post_def chunk_step_transfer transfer_chunk_fail)
  next
    case (Inr p)
    with assms None show ?thesis
      by (simp add: loop_inv_def chunk_step_transfer transfer_chunk_ok)
  qed
qed

lemma loop_inv_finish:
  assumes "loop_inv w u j s" "totalChunks u < j"
  shows "loop_post w u s"
proof -
  have "j = 1 \<or> j = totalChunks u + 1"
    using assms by (auto simp add: loop_inv_def)
  then have "[1..j - 1] = [1..totalChunks u + 1 - 1]"
    using assms(2) by auto
  with assms show ?thesis by (auto simp add: loop_inv_def loop_post_def events_ok_def)
qed

lemma upload_loop_post:
  assumes "loop_inv w u k st"
  shows "loop_post w u (upload_loop w d u k st)"
  using assms
  by (rule upload_loop_rule [where I = "loop_inv w u" and Q = "loop_post w u"])
     (auto intro: loop_inv_step loop_inv_finish loop_inv_stop)


lemma initial_inv: "loop_inv w (upload_info_of w d p f) 1 (initial_state w d p f)"
  by (simp add: loop_inv_def events_ok_def initial_state_def proj_defs)

lemma final_post: "loop_post w (upload_info_of w d p f) (final_state w d p f)"
  unfolding final_state_def by (rule upload_loop_post [OF initial_inv])

lemma Put_started:
  "Put w d p f = (res, tr) \<Longrightarrow> tr \<noteq> [] \<Longrightarrow> 0 \<le> GetSize f \<and> chunk_bytes d \<noteq> 0"
  by (auto simp add: Put_def split: if_splits)

lemma Put_aborted:
  assumes "0 \<le> GetSize f" "chunk_bytes d \<noteq> 0" "abort (final_state w d p f) = Some e"
  shows "Put w d p f = (Inl e, trace (final_state w d p f))"
  using assms by (simp add: Put_def final_state_def)

lemma Put_committed:
  assumes "0 \<le> GetSize f" "chunk_bytes d \<noteq> 0" "abort (final_state w d p f) = None"
  shows "Put w d p f =
           (created_object w p f (http_post_files w
              (create_file_request w d p f (partsToCommit (final_state w d p f)))),
            trace (final_state w d p f) @
              [PostFiles (create_file_request w d p f (partsToCommit (final_state w d p f)))])"
  using assms by (simp add: Put_def final_state_def Let_def)

lemma events_ok_transfers:
  "events_ok w u j tr \<Longrightarrow> (k, n, r) \<in> set (transfers tr)
     \<Longrightarrow> \<exists>p. part_of_response (http_post_upload w r) = Inr p"
  by (auto simp add: events_ok_def)

lemma bad_response:
  assumes "(\<exists>m. res = TransportErr m) \<or>
           (\<exists>status text decoded. res = Resp status text decoded \<and> status \<noteq> 200) \<or>
           (\<exists>text m. res = Resp 200 text (Inl m)) \<or>
           (\<exists>text part. res = Resp 200 text (Inr part) \<and> PartId part = 0)"
  shows "\<exists>e. part_of_response res = Inl e \<and>
           (e = MissingPartId \<or> (\<exists>m. e = UploadChunkFailed m) \<or> (\<exists>m. e = ParseChunkFailed m))"
  using assms by auto


subsection \<open>The registry lookup and the events of a whole run\<close>

lemma request_get_irrelevant:
  "upload_request_of (w\<lparr>http_get_uploads := g\<rparr>) d u k i bs = upload_request_of w d u k i bs"
  by (simp add: upload_request_of_def chunk_name_def getMD5Hash_def)

lemma transfer_chunk_get_irrelevant:
  "transfer_chunk (w\<lparr>http_get_uploads := g\<rparr>) d u k st = transfer_chunk w d u k st"
  by (simp add: transfer_chunk_def request_get_irrelevant)

lemma chunk_step_get_irrelevant:
  "chunk_step (w\<lparr>http_get_uploads := g\<rparr>) d u k st = chunk_step w d u k st"
  by (simp add: chunk_step_def transfer_chunk_get_irrelevant split: option.splits)

lemma created_object_get_irrelevant:
  "created_object (w\<lparr>http_get_uploads := g\<rparr>) p f r = created_object w p f r"
  by (cases r) (simp_all split: sum.splits)

lemma upload_loop_get_irrelevant:
  "upload_loop (w\<lparr>http_get_uploads := g\<rparr>) d u k st = upload_loop w d u k st"
proof (induction "nat (totalChunks u + 1 - k)" arbitrary: k st)
  case 0
  then show ?case by (simp add: upload_loop.simps)
next
  case (Suc m)
  then have "m = nat (totalChunks u + 1 - (k + 1))" by simp
  from Suc.hyps(1) [OF this] show ?case
    by (simp add: upload_loop.simps [of _ d u k st] chunk_step_get_irrelevant Let_def)
qed

lemma registry_parts_failed:
  assumes "(\<exists>m. res = TransportErr m) \<or>
           (\<exists>status text decoded. res = Resp status text decoded \<and> status \<noteq> 200) \<or>
           (\<exists>text m. res = Resp 200 text (Inl m))"
  shows "registry_parts res = []"
  using assms by auto

lemma skips_none_transfers:
  "skips tr = [] \<Longrightarrow> map fst (transfers tr) = chunk_nos tr"
proof (induction tr)
  case Nil
  then show ?case by (simp add: proj_defs)
next
  case (Cons ev tr)
  then show ?case by (cases ev) (simp_all add: proj_defs)
qed

lemma Put_events_ok:
  assumes "Put w d p f = (res, tr)" "commits tr \<noteq> []"
  shows "\<exists>pre. tr = pre @ [PostFiles (create_file_request w d p f (map snd (chunk_parts w pre)))] \<and>
           events_ok w (upload_info_of w d p f) (total_chunks d f + 1) pre \<and>
           res = created_object w p f (http_post_files w (create_file_request w d p f (map snd (chunk_parts w pre))))"
proof -
  let ?u = "upload_info_of w d p f"
  let ?st = "final_state w d p f"
  have ne: "tr \<noteq> []" using assms(2) by (auto simp add: commits_def)
  from Put_started [OF assms(1) ne] have sz: "0 \<le> GetSize f" and cs: "chunk_bytes d \<noteq> 0"
    by simp_all
  have post: "loop_post w ?u ?st" by (rule final_post)
  show ?thesis
  proof (cases "abort ?st")
    case None
    with post have ok: "events_ok w ?u (totalChunks ?u + 1) (trace ?st)"
      and parts: "partsToCommit ?st = map snd (chunk_parts w (trace ?st))"
      by (simp_all add: loop_post_def)
    from Put_committed [OF sz cs None] assms(1) ok parts show ?thesis
      by (auto simp add: upload_info_of_def)
  next
    case (Some e)
    with post obtain j n r pre where
      tr': "trace ?st = pre @ [Transfer j n r]" and ok: "events_ok w ?u j pre"
      by (auto simp add: loop_post_def)
    from Put_aborted [OF sz cs Some] assms(1) have "tr = trace ?st" by simp
    with tr' ok have "commits tr = []" by (simp add: events_ok_def commits_def)
    with assms(2) show ?thesis by simp
  qed
qed

lemma Put_skips_registry:
  assumes "Put w d p f = (res, tr)" "(k, e, written) \<in> set (skips tr)"
  shows "registry w d p f k = Some e"
proof -
  let ?u = "upload_info_of w d p f"
  let ?st = "final_state w d p f"
  have ne: "tr \<noteq> []" using assms(2) by (auto simp add: skips_def)
  from Put_started [OF assms(1) ne] have sz: "0 \<le> GetSize f" and cs: "chunk_bytes d \<noteq> 0"
    by simp_all
  have post: "loop_post w ?u ?st" by (rule final_post)
  have u: "existingChunks ?u = registry w d p f" by (simp add: upload_info_of_def)
  show ?thesis
  proof (cases "abort ?st")
    case None
    with post have ok: "events_ok w ?u (totalChunks ?u + 1) (trace ?st)"
      by (simp_all add: loop_post_def)
    from Put_committed [OF sz cs None] assms(1)
    have "skips tr = skips (trace ?st)" by (auto simp add: skips_def)
    with ok assms(2) u show ?thesis by (fastforce simp add: events_ok_def)
  next
    case (Some e')
    with post obtain j n r pre where
      tr': "trace ?st = pre @ [Transfer j n r]" and ok: "events_ok w ?u j pre"
      by (auto simp add: loop_post_def)
    from Put_aborted [OF sz cs Some] assms(1) have "tr = trace ?st" by simp
    with tr' have "skips tr = skips pre" by (simp add: skips_def)
    with ok assms(2) u show ?thesis by (fastforce simp add: events_ok_def)
  qed
qed

text \<open>An invariant that every step keeps holds after the loop.\<close>

lemma upload_loop_keeps:
  assumes "I st" and "\<And>j s. I s \<Longrightarrow> I (chunk_step w d u j s)"
  shows "I (upload_loop w d u k st)"
  using assms(1)
  by (rule upload_loop_rule [where I = "\<lambda>j. I" and Q = I]) (auto intro: assms(2))

lemma Put_trace:
  assumes "Put w d p f = (res, tr)" "tr \<noteq> []"
  shows "tr = trace (final_state w d p f) \<or>
         (\<exists>req. tr = trace (final_state w d p f) @ [PostFiles req])"
proof -
  from Put_started [OF assms] have sz: "0 \<le> GetSize f" and cs: "chunk_bytes d \<noteq> 0"
    by simp_all
  show ?thesis
  proof (cases "abort (final_state w d p f)")
    case None
    from Put_committed [OF sz cs None] assms(1) show ?thesis by auto
  next
    case (Some e)
    from Put_aborted [OF sz cs Some] assms(1) show ?thesis by auto
  qed
qed

lemma final_lookups:
  "lookups (trace (final_state w d p f)) = [''/api/uploads/'' @ upload_id w d p f]"
  unfolding final_state_def
proof (rule upload_loop_keeps)
  show "lookups (trace (initial_state w d p f)) = [''/api/uploads/'' @ upload_id w d p f]"
    by (simp add: initial_state_def lookups_def)
next
  fix j and s :: loop_state
  assume "lookups (trace s) = [''/api/uploads/'' @ upload_id w d p f]"
  then show "lookups (trace (chunk_step w d (upload_info_of w d p f) j s))
               = [''/api/uploads/'' @ upload_id w d p f]"
    by (cases rule: chunk_step_cases [of "upload_info_of w d p f" j w d s])
       (simp_all add: lookups_def transfer_chunk_ok transfer_chunk_fail)
qed

lemma final_requests:
  "\<forall>(k, n, r) \<in> set (transfers (trace (final_state w d p f))).
     \<exists>i bs. r = upload_request_of w d (upload_info_of w d p f) k i bs"
  unfolding final_state_def
proof (rule upload_loop_keeps)
  show "\<forall>(k, n, r) \<in> set (transfers (trace (initial_state w d p f))).
     \<exists>i bs. r = upload_request_of w d (upload_info_of w d p f) k i bs"
    by (simp add: initial_state_def transfers_def)
next
  fix j and s :: loop_state
  assume "\<forall>(k, n, r) \<in> set (transfers (trace s)).
     \<exists>i bs. r = upload_request_of w d (upload_info_of w d p f) k i bs"
  then show "\<forall>(k, n, r) \<in> set (transfers (trace (chunk_step w d (upload_info_of w d p f) j s))).
     \<exists>i bs. r = upload_request_of w d (upload_info_of w d p f) k i bs"
    by (cases rule: chunk_step_cases [of "upload_info_of w d p f" j w d s])
       (auto simp add: transfers_def transfer_chunk_ok transfer_chunk_fail next_request_def)
qed

lemma Put_lookups:
  "set (lookups (snd (Put w d p f))) \<subseteq> {''/api/uploads/'' @ upload_id w d p f}"
proof (cases "snd (Put w d p f) = []")
  case True
  then show ?thesis by (simp add: lookups_def)
next
  case False
  have "Put w d p f = (fst (Put w d p f), snd (Put w d p f))" by simp
  from Put_trace [OF this False]
  have "lookups (snd (Put w d p f)) = lookups (trace (final_state w d p f))"
    by (auto simp add: lookups_def)
  with final_lookups [of w d p f] show ?thesis by simp
qed

lemma Put_requests:
  "\<forall>(k, n, r) \<in> set (transfers (snd (Put w d p f))).
     \<exists>i bs. r = upload_request_of w d (upload_info_of w d p f) k i bs"
proof (cases "snd (Put w d p f) = []")
  case True
  then show ?thesis by (simp add: transfers_def)
next
  case False
  have "Put w d p f = (fst (Put w d p f), snd (Put w d p f))" by simp
  from Put_trace [OF this False]
  have "transfers (snd (Put w d p f)) = transfers (trace (final_state w d p f))"
    by (auto simp add: transfers_def)
  with final_requests [of w d p f] show ?thesis by simp
qed


subsection \<open>Chunk names and number formatting\<close>









subsection \<open>Arithmetic of the plan\<close>

lemma wrap64_id: "- (2 ^ 63) \<le> x \<Longrightarrow> x < 2 ^ 63 \<Longrightarrow> wrap64 x = x"
  by (simp add: wrap64_def)

lemma chunk_bytes_plain:
  assumes "0 < ChunkSize d" "ChunkSize d * 1048576 < 2 ^ 63"
  shows "chunk_bytes d = ChunkSize d * 1048576"
proof -
  have "wrap64 (ChunkSize d * 1024) = ChunkSize d * 1024"
    using assms by (intro wrap64_id) auto
  moreover have "wrap64 (ChunkSize d * 1024 * 1024) = ChunkSize d * 1024 * 1024"
    using assms by (intro wrap64_id) auto
  ultimately show ?thesis by (simp add: chunk_bytes_def mul64_def)
qed

lemma ceil_plan:
  fixes S C :: int
  assumes "0 < C"
  defines "q \<equiv> (S + C - 1) div C"
  shows "S \<le> q * C" and "(q - 1) * C < S"
proof -
  define r where "r = (S + C - 1) mod C"
  have "q * C + r = S + C - 1" by (simp add: q_def r_def)
  moreover have "0 \<le> r" "r < C" using assms(1) by (simp_all add: r_def)
  ultimately show "S \<le> q * C" and "(q - 1) * C < S"
    by (simp_all add: algebra_simps)
qed

lemma total_sign:
  fixes S C :: int
  assumes "0 \<le> S" "0 < C"
  shows "0 \<le> (S + C - 1) div C" and "(S + C - 1) div C = 0 \<longleftrightarrow> S = 0"
proof -
  show "0 \<le> (S + C - 1) div C" using assms by (simp add: pos_imp_zdiv_nonneg_iff)
  show "(S + C - 1) div C = 0 \<longleftrightarrow> S = 0"
  proof
    assume "(S + C - 1) div C = 0"
    with ceil_plan(1) [OF assms(2), of S] assms(1) show "S = 0" by simp
  next
    assume "S = 0"
    with assms(2) show "(S + C - 1) div C = 0" by (simp add: div_pos_pos_trivial)
  qed
qed

lemma ceil_div:
  fixes S C :: int
  assumes "0 < C"
  shows "(S + C - 1) div C = \<lceil>real_of_int S / real_of_int C\<rceil>"
proof -
  let ?q = "(S + C - 1) div C"
  from ceil_plan [OF assms, of S] have "S \<le> ?q * C" "(?q - 1) * C < S" by simp_all
  then have "real_of_int S \<le> real_of_int (?q * C)" "real_of_int ((?q - 1) * C) < real_of_int S"
    by linarith+
  then have "real_of_int S / real_of_int C \<le> real_of_int ?q"
    and "real_of_int (?q - 1) < real_of_int S / real_of_int C"
    using assms by (simp_all add: pos_divide_le_eq pos_less_divide_eq)
  then have "\<lceil>real_of_int S / real_of_int C\<rceil> = ?q - 1 + 1"
    by (intro ceiling_eq) simp_all
  then show ?thesis by simp
qed

lemma total_chunks_plain:
  assumes "0 \<le> S" "0 < C" "S + C \<le> 2 ^ 63"
  shows "quo64 (sub64 (add64 S C) 1) C = (S + C - 1) div C"
proof -
  let ?q = "(S + C - 1) div C"
  have a: "add64 S C = (if S + C = 2 ^ 63 then - (2 ^ 63) else S + C)"
    using assms by (auto simp add: add64_def wrap64_def)
  have b: "sub64 (add64 S C) 1 = S + C - 1"
    using assms by (auto simp add: a sub64_def wrap64_def)
  have q0: "0 \<le> ?q" using total_sign(1) [OF assms(1,2)] .
  have "?q * 1 \<le> ?q * C" using q0 assms(2) by (intro mult_left_mono) auto
  moreover have "?q * C \<le> S + C - 1"
    using ceil_plan(2) [OF assms(2), of S] by (simp add: algebra_simps)
  ultimately have "wrap64 ?q = ?q"
    using assms q0 by (intro wrap64_id) auto
  moreover have "sgn (S + C - 1) * sgn C * (\<bar>S + C - 1\<bar> div \<bar>C\<bar>) = ?q"
    using assms by (cases "S + C - 1 = 0") (auto simp add: sgn_if)
  ultimately show ?thesis by (simp add: quo64_def b)
qed


text \<open>
  The number of chunks is at most \<open>2^43\<close> in absolute value, so the loop counter, which
  the model does not wrap, stays far from the bounds of a 64-bit integer.
\<close>

lemma wrap64_range: "- (2 ^ 63) \<le> wrap64 x" "wrap64 x < 2 ^ 63"
  by (simp_all add: wrap64_def)

lemma wrap64_dvd:
  assumes "k dvd 2 ^ 63" "k dvd x"
  shows "(k::int) dvd wrap64 x"
proof -
  have "k dvd (2::int) ^ 64" using assms(1) by (auto intro: dvd_trans [where b = "2 ^ 63"])
  then have "k dvd (x + 2 ^ 63) mod 2 ^ 64" using assms by (simp add: dvd_mod)
  with assms(1) show ?thesis by (simp add: wrap64_def)
qed

lemma chunk_bytes_dvd: "2 ^ 20 dvd chunk_bytes d"
proof -
  have "(2::int) ^ 10 dvd 2 ^ 63" by (intro le_imp_power_dvd) simp
  then have "(1024::int) dvd 2 ^ 63" by simp
  then have "1024 dvd wrap64 (ChunkSize d * 1024)" by (rule wrap64_dvd) simp
  then obtain a where a: "wrap64 (ChunkSize d * 1024) = 1024 * a" by (auto simp add: dvd_def)
  have "(2::int) ^ 20 dvd 2 ^ 63" by (intro le_imp_power_dvd) simp
  moreover have "(2::int) ^ 20 dvd wrap64 (ChunkSize d * 1024) * 1024" by (simp add: a)
  ultimately show ?thesis unfolding chunk_bytes_def mul64_def by (rule wrap64_dvd)
qed

lemma total_chunks_small:
  assumes "chunk_bytes d \<noteq> 0"
  shows "\<bar>total_chunks d f\<bar> \<le> 2 ^ 43"
proof -
  let ?x = "sub64 (add64 (GetSize f) (chunk_bytes d)) 1" and ?C = "chunk_bytes d"
  have "\<bar>(2::int) ^ 20\<bar> \<le> \<bar>?C\<bar>" using chunk_bytes_dvd assms by (intro dvd_imp_le_int)
  then have C: "2 ^ 20 \<le> \<bar>?C\<bar>" by simp
  have x: "\<bar>?x\<bar> \<le> 2 ^ 63" using wrap64_range [of "add64 (GetSize f) ?C - 1"]
    by (simp add: sub64_def abs_le_iff)
  have "\<bar>?x\<bar> div \<bar>?C\<bar> \<le> \<bar>?x\<bar> div 2 ^ 20" using C by (intro zdiv_mono2) auto
  also have "\<dots> \<le> 2 ^ 63 div 2 ^ 20" using x by (intro zdiv_mono1) auto
  also have "\<dots> = (2::int) ^ 43" by simp
  finally have q: "\<bar>?x\<bar> div \<bar>?C\<bar> \<le> 2 ^ 43" .
  have "0 < \<bar>?C\<bar>" using assms by simp
  then have q0: "0 \<le> \<bar>?x\<bar> div \<bar>?C\<bar>" by (simp add: pos_imp_zdiv_nonneg_iff)
  have "\<bar>sgn ?x * sgn ?C * (\<bar>?x\<bar> div \<bar>?C\<bar>)\<bar> \<le> \<bar>?x\<bar> div \<bar>?C\<bar>"
    using q0 by (simp add: abs_mult sgn_if)
  with q have small: "\<bar>sgn ?x * sgn ?C * (\<bar>?x\<bar> div \<bar>?C\<bar>)\<bar> \<le> 2 ^ 43" by simp
  then have "wrap64 (sgn ?x * sgn ?C * (\<bar>?x\<bar> div \<bar>?C\<bar>)) = sgn ?x * sgn ?C * (\<bar>?x\<bar> div \<bar>?C\<bar>)"
    by (intro wrap64_id) (simp_all add: abs_le_iff)
  with small show ?thesis by (simp add: total_chunks_def quo64_def)
qed

lemma offset_facts:
  assumes "plan_ok u" "1 \<le> j" "j \<le> totalChunks u"
  shows "offset_after u (j - 1) = (j - 1) * chunkSize u"
    and "offset_after u j = (if j = totalChunks u then fileSize u else j * chunkSize u)"
    and "0 \<le> offset_after u j" and "offset_after u j \<le> fileSize u"
    and "0 \<le> offset_after u (j - 1)" and "offset_after u (j - 1) \<le> offset_after u j"
proof -
  let ?S = "fileSize u" and ?C = "chunkSize u" and ?T = "totalChunks u"
  from assms(1) have C: "0 < ?C" and S: "0 \<le> ?S" and T: "?T = (?S + ?C - 1) div ?C"
    by (simp_all add: plan_ok_def)
  from ceil_plan [OF C, of ?S] T have cover: "?S \<le> ?T * ?C" and tight: "(?T - 1) * ?C < ?S"
    by simp_all
  have "(j - 1) * ?C \<le> (?T - 1) * ?C" using assms(3) C by (intro mult_right_mono) auto
  with tight have below: "(j - 1) * ?C < ?S" by simp
  then show a: "offset_after u (j - 1) = (j - 1) * ?C" by (simp add: offset_after_def)
  show b: "offset_after u j = (if j = ?T then ?S else j * ?C)"
  proof (cases "j = ?T")
    case True
    with cover show ?thesis by (simp add: offset_after_def)
  next
    case False
    with assms(3) have "j * ?C \<le> (?T - 1) * ?C" using C by (intro mult_right_mono) auto
    with tight False show ?thesis by (simp add: offset_after_def)
  qed
  have "0 \<le> (j - 1) * ?C" using assms(2) C by simp
  then show "0 \<le> offset_after u (j - 1)" by (simp add: a)
  have "0 \<le> j * ?C" using assms(2) C by simp
  with S show "0 \<le> offset_after u j" by (simp add: offset_after_def)
  show "offset_after u j \<le> ?S" by (simp add: offset_after_def)
  have "(j - 1) * ?C \<le> j * ?C" using C by (intro mult_right_mono) auto
  then show "offset_after u (j - 1) \<le> offset_after u j" by (simp add: offset_after_def)
qed

lemma planned_length:
  assumes "plan_ok u" "1 \<le> j" "j \<le> totalChunks u"
  shows "(if j = totalChunks u then fileSize u - (totalChunks u - 1) * chunkSize u else chunkSize u)
           = offset_after u j - offset_after u (j - 1)"
  using offset_facts(1,2) [OF assms] by (auto simp add: algebra_simps)

lemma planned_add:
  assumes "plan_ok u" "1 \<le> j" "j \<le> totalChunks u"
  shows "add64 (offset_after u (j - 1)) (offset_after u j - offset_after u (j - 1)) = offset_after u j"
proof -
  from assms(1) have "fileSize u < 2 ^ 63" by (simp add: plan_ok_def)
  with offset_facts(3,4) [OF assms] show ?thesis
    by (simp add: add64_def wrap64_id)
qed

lemma planned_chunk_length:
  assumes "plan_ok u" "1 \<le> j" "j \<le> totalChunks u"
  shows "chunk_length u j (offset_after u (j - 1)) = offset_after u j - offset_after u (j - 1)"
proof -
  from assms(1) have S: "fileSize u < 2 ^ 63" "0 \<le> fileSize u" by (simp_all add: plan_ok_def)
  have "sub64 (fileSize u) (offset_after u (j - 1)) = fileSize u - offset_after u (j - 1)"
    using offset_facts(4,5,6) [OF assms] S by (simp add: sub64_def wrap64_id)
  with offset_facts(1,2) [OF assms] show ?thesis
    by (auto simp add: chunk_length_def algebra_simps)
qed

lemma plan_inv_step:
  assumes ok: "plan_ok u" and inv: "plan_inv u j s" and j: "j \<le> totalChunks u"
  shows "(abort (chunk_step w d u j s) = None \<longrightarrow> plan_inv u (j + 1) (chunk_step w d u j s)) \<and>
         (abort (chunk_step w d u j s) \<noteq> None \<longrightarrow> plan_post u (chunk_step w d u j s))"
proof -
  from inv have j1: "1 \<le> j" and up: "uploadedSize s = offset_after u (j - 1)"
    and ab: "abort s = None" by (simp_all add: plan_inv_def)
  note len = planned_chunk_length [OF ok j1 j]
  note add = planned_add [OF ok j1 j]
  show ?thesis
  proof (cases rule: chunk_step_cases [of u j w d s])
    case (skip e)
    with ok j1 j have "pf_Size e = offset_after u j - offset_after u (j - 1)"
      using planned_length [OF ok j1 j] by (simp add: plan_ok_def)
    with skip inv j1 add show ?thesis
      by (simp add: plan_inv_def chunk_lengths_def progress_values_def upto_snoc)
  next
    case (sent part)
    with inv j1 add len up ab show ?thesis
      by (simp add: plan_inv_def chunk_lengths_def progress_values_def upto_snoc transfer_chunk_ok)
  next
    case (failed e)
    with inv j1 j len up show ?thesis
      by (auto simp add: plan_inv_def plan_post_def chunk_lengths_def progress_values_def
          upto_snoc transfer_chunk_fail intro!: exI [of _ j])
  qed
qed

lemma plan_inv_finish:
  assumes ok: "plan_ok u" and inv: "plan_inv u j s" and j: "totalChunks u < j"
    and reach: "j = 1 \<or> j \<le> totalChunks u + 1"
  shows "plan_post u s"
proof -
  from ok have T0: "0 \<le> totalChunks u"
    using total_sign(1) [of "fileSize u" "chunkSize u"] by (simp add: plan_ok_def)
  from j reach T0 have "j = totalChunks u + 1" by auto
  with inv T0 show ?thesis
    by (auto simp add: plan_inv_def plan_post_def intro!: exI [of _ "totalChunks u"])
qed

lemma upload_loop_plan:
  assumes ok: "plan_ok u" and inv: "plan_inv u 1 st"
  shows "plan_post u (upload_loop w d u 1 st)"
proof (rule upload_loop_rule [where I = "\<lambda>j s. plan_inv u j s \<and> (j = 1 \<or> j \<le> totalChunks u + 1)"])
  show "plan_inv u 1 st \<and> (1 = 1 \<or> 1 \<le> totalChunks u + 1)" using inv by simp
next
  fix j and s :: loop_state
  assume "plan_inv u j s \<and> (j = 1 \<or> j \<le> totalChunks u + 1)" "j \<le> totalChunks u"
    "abort (chunk_step w d u j s) = None"
  with plan_inv_step [OF ok, of j s w d]
  show "plan_inv u (j + 1) (chunk_step w d u j s) \<and> (j + 1 = 1 \<or> j + 1 \<le> totalChunks u + 1)"
    by simp
next
  fix j and s :: loop_state
  assume "plan_inv u j s \<and> (j = 1 \<or> j \<le> totalChunks u + 1)" "totalChunks u < j"
  with plan_inv_finish [OF ok] show "plan_post u s" by blast
next
  fix j and s :: loop_state
  assume "plan_inv u j s \<and> (j = 1 \<or> j \<le> totalChunks u + 1)" "j \<le> totalChunks u"
    "abort (chunk_step w d u j s) \<noteq> None"
  with plan_inv_step [OF ok, of j s w d] show "plan_post u (chunk_step w d u j s)" by simp
qed


lemma Put_plan_ok:
  assumes "0 \<le> GetSize f" "0 < ChunkSize d" "GetSize f + ChunkSize d * 1048576 < 2 ^ 63"
    and "registry_matches_plan w d p f"
  shows "plan_ok (upload_info_of w d p f)"
    and "chunk_bytes d = ChunkSize d * 1048576"
    and "total_chunks d f = (GetSize f + chunk_bytes d - 1) div chunk_bytes d"
    and "0 < chunk_bytes d"
proof -
  have "ChunkSize d * 1048576 < 2 ^ 63" using assms(1,2,3) by simp
  from chunk_bytes_plain [OF assms(2) this] show cb: "chunk_bytes d = ChunkSize d * 1048576" .
  with assms(2) show pos: "0 < chunk_bytes d" by simp
  from assms(3) cb have "GetSize f + chunk_bytes d \<le> 2 ^ 63" by simp
  from total_chunks_plain [OF assms(1) pos this]
  show tc: "total_chunks d f = (GetSize f + chunk_bytes d - 1) div chunk_bytes d"
    by (simp add: total_chunks_def)
  have "GetSize f < 2 ^ 63" using assms(1,2,3) by simp
  with assms(1,4) pos tc show "plan_ok (upload_info_of w d p f)"
    by (simp add: plan_ok_def upload_info_of_def registry_matches_plan_def)
qed

lemma final_plan:
  assumes "plan_ok (upload_info_of w d p f)"
  shows "plan_post (upload_info_of w d p f) (final_state w d p f)"
  unfolding final_state_def
proof (rule upload_loop_plan [OF assms])
  from assms have "0 \<le> GetSize f" by (simp add: plan_ok_def upload_info_of_def)
  then show "plan_inv (upload_info_of w d p f) 1 (initial_state w d p f)"
    by (simp add: plan_inv_def initial_state_def offset_after_def chunk_lengths_def
        progress_values_def upload_info_of_def)
qed

lemma telescope:
  fixes g :: "int \<Rightarrow> int"
  assumes "0 \<le> m"
  shows "sum_list (map (\<lambda>k. g k - g (k - 1)) [1..m]) = g m - g 0"
  using assms
proof (induction m rule: int_ge_induct)
  case base
  then show ?case by simp
next
  case (step i)
  then show ?case by (simp add: upto_snoc)
qed

lemma progress_sorted:
  assumes "plan_ok u" "0 < fileSize u"
  shows "sorted_wrt float_le (map (\<lambda>k. progress_value (offset_after u k) (fileSize u)) [1..m])"
proof -
  from assms(1) have C: "0 < chunkSize u" by (simp add: plan_ok_def)
  have mono: "float_le (progress_value (offset_after u a) (fileSize u))
                (progress_value (offset_after u b) (fileSize u))" if "a \<le> b" for a b
  proof -
    from that C have "a * chunkSize u \<le> b * chunkSize u" by (intro mult_right_mono) auto
    then have "offset_after u a \<le> offset_after u b" by (simp add: offset_after_def)
    with assms(2) show ?thesis
      by (simp add: progress_value_def float_le_def divide_right_mono)
  qed
  have "sorted_wrt (\<le>) [1..m]" by simp
  then have "sorted_wrt (\<lambda>a b. float_le (progress_value (offset_after u a) (fileSize u))
                (progress_value (offset_after u b) (fileSize u))) [1..m]"
    by (rule sorted_wrt_mono_rel [rotated]) (simp add: mono)
  then show ?thesis by (simp add: sorted_wrt_map)
qed

lemma chunk_nos_butlast:
  "tr \<noteq> [] \<Longrightarrow> last tr = Progress v \<Longrightarrow> chunk_nos (butlast tr) = chunk_nos tr"
proof -
  assume "tr \<noteq> []" "last tr = Progress v"
  then have "tr = butlast tr @ [Progress v]" by (metis append_butlast_last_id)
  then have "chunk_nos tr = chunk_nos (butlast tr @ [Progress v])" by simp
  then show ?thesis by (simp add: chunk_nos_def)
qed

subsection \<open>The stream and the manifest\<close>

lemma replay_append:
  "replay src (xs @ ys) = (case replay src xs of None \<Rightarrow> None | Some rest \<Rightarrow> replay rest ys)"
proof (induction xs arbitrary: src)
  case Nil
  then show ?case by simp
next
  case (Cons ev xs)
  then show ?case by (cases ev) simp_all
qed

lemma body_next_request:
  "body (next_request w d u k s) = take (nat (chunk_length u k (uploadedSize s))) (source s)"
  by (simp add: next_request_def upload_request_of_def)

lemma final_replay:
  "replay (stream_data f) (trace (final_state w d p f)) = Some (source (final_state w d p f))"
  unfolding final_state_def
proof (rule upload_loop_keeps [where I = "\<lambda>s. replay (stream_data f) (trace s) = Some (source s)"])
  show "replay (stream_data f) (trace (initial_state w d p f)) = Some (source (initial_state w d p f))"
    by (simp add: initial_state_def)
next
  fix j and s :: loop_state
  assume "replay (stream_data f) (trace s) = Some (source s)"
  then show "replay (stream_data f) (trace (chunk_step w d (upload_info_of w d p f) j s))
               = Some (source (chunk_step w d (upload_info_of w d p f) j s))"
    by (cases rule: chunk_step_cases [of "upload_info_of w d p f" j w d s])
       (simp_all add: replay_append transfer_chunk_ok transfer_chunk_fail body_next_request)
qed

lemma Put_replay: "replay (stream_data f) (snd (Put w d p f)) \<noteq> None"
proof (cases "snd (Put w d p f) = []")
  case True
  then show ?thesis by simp
next
  case False
  have "Put w d p f = (fst (Put w d p f), snd (Put w d p f))" by simp
  from Put_trace [OF this False] final_replay [of f w d p] show ?thesis
    by (auto simp add: replay_append)
qed

lemma existing_map_PartNo:
  assumes "existing_map parts k = Some e"
  shows "PartNo e = k"
proof -
  have "\<forall>k e. foldl (\<lambda>m part. m(PartNo part \<mapsto> part)) m parts k = Some e \<longrightarrow> PartNo e = k"
    if "\<forall>k e. m k = Some e \<longrightarrow> PartNo e = k" for m :: "int \<rightharpoonup> PartFile"
    using that
  proof (induction parts arbitrary: m)
    case Nil
    then show ?case by simp
  next
    case (Cons part parts)
    show ?case
      unfolding foldl_Cons
      by (rule Cons.IH) (use Cons.prems in auto)
  qed
  from this [of Map.empty] assms show ?thesis by (simp add: existing_map_def)
qed

lemma chunk_parts_sources:
  assumes "(k, part) \<in> set (chunk_parts w tr)"
  shows "(\<exists>written. (k, part, written) \<in> set (skips tr)) \<or>
         (\<exists>n r. (k, n, r) \<in> set (transfers tr) \<and> part_of_response (http_post_upload w r) = Inr part)"
proof -
  from assms obtain ev where ev: "ev \<in> set tr" "(k, part) \<in> set (ev_part w ev)"
    by (auto simp add: chunk_parts_def)
  show ?thesis
  proof (cases ev)
    case (Skip k' e written)
    with ev have "(k, part, written) \<in> set (skips tr)" by (force simp add: skips_def)
    then show ?thesis by blast
  next
    case (Transfer k' n r)
    with ev(2) have "k' = k" "part_of_response (http_post_upload w r) = Inr part"
      by (auto split: sum.splits)
    moreover from Transfer ev(1) have "(k', n, r) \<in> set (transfers tr)"
      by (force simp add: transfers_def)
    ultimately show ?thesis by blast
  qed (use ev in simp_all)
qed

lemma skips_in_chunk_parts:
  assumes "(k, e, written) \<in> set (skips tr)"
  shows "(k, e) \<in> set (chunk_parts w tr)"
  using assms
proof (induction tr)
  case Nil
  then show ?case by (simp add: skips_def)
next
  case (Cons ev tr)
  then show ?case by (cases ev) (auto simp add: chunk_parts_def skips_def)
qed

lemma keyed_parts:
  assumes "\<forall>(k, part) \<in> set cps. PartNo part = k"
  shows "map PartNo (map snd cps) = map fst cps"
  using assms by (induction cps) auto

text \<open>A committed run, taken apart.\<close>

lemma Put_commit:
  assumes run: "Put w d p f = (res, tr)" and commit: "req \<in> set (commits tr)"
  shows "chunk_nos tr = [1..total_chunks d f]"
    and "map fst (chunk_parts w tr) = [1..total_chunks d f]"
    and "Parts req = file_chunks (sort_key PartNo (map snd (chunk_parts w tr)))"
proof -
  from commit have "commits tr \<noteq> []" by auto
  from Put_events_ok [OF run this] obtain pre where
    tr: "tr = pre @ [PostFiles (create_file_request w d p f (map snd (chunk_parts w pre)))]"
    and ok: "events_ok w (upload_info_of w d p f) (total_chunks d f + 1) pre"
    by auto
  from ok have nos: "chunk_nos pre = [1..total_chunks d f]"
    and keys: "map fst (chunk_parts w pre) = [1..total_chunks d f]"
    and none: "commits pre = []"
    by (simp_all add: events_ok_def)
  from tr nos show "chunk_nos tr = [1..total_chunks d f]" by (simp add: chunk_nos_def)
  have cp: "chunk_parts w tr = chunk_parts w pre" using tr by (simp add: chunk_parts_def)
  with keys show "map fst (chunk_parts w tr) = [1..total_chunks d f]" by simp
  from tr none commit have "req = create_file_request w d p f (map snd (chunk_parts w pre))"
    by (simp add: commits_def)
  with cp show "Parts req = file_chunks (sort_key PartNo (map snd (chunk_parts w tr)))"
    by (simp add: create_file_request_def)
qed

lemma Put_transfers_registry:
  assumes "Put w d p f = (res, tr)" "(k, n, r) \<in> set (transfers tr)"
  shows "registry w d p f k = None"
proof -
  let ?u = "upload_info_of w d p f"
  let ?st = "final_state w d p f"
  have ne: "tr \<noteq> []" using assms(2) by (auto simp add: transfers_def)
  from Put_started [OF assms(1) ne] have sz: "0 \<le> GetSize f" and cs: "chunk_bytes d \<noteq> 0"
    by simp_all
  have post: "loop_post w ?u ?st" by (rule final_post)
  have u: "existingChunks ?u = registry w d p f" by (simp add: upload_info_of_def)
  show ?thesis
  proof (cases "abort ?st")
    case None
    with post have ok: "events_ok w ?u (totalChunks ?u + 1) (trace ?st)"
      by (simp_all add: loop_post_def)
    from Put_committed [OF sz cs None] assms(1)
    have "transfers tr = transfers (trace ?st)" by (auto simp add: transfers_def)
    with ok assms(2) u show ?thesis by (fastforce simp add: events_ok_def)
  next
    case (Some e')
    with post obtain j n' r' pre where
      tr': "trace ?st = pre @ [Transfer j n' r']" and ok: "events_ok w ?u j pre"
      and j: "existingChunks ?u j = None"
      by (auto simp add: loop_post_def)
    from Put_aborted [OF sz cs Some] assms(1) have "tr = trace ?st" by simp
    with tr' have "transfers tr = transfers pre @ [(j, n', r')]" by (simp add: transfers_def)
    with ok assms(2) u j show ?thesis by (fastforce simp add: events_ok_def)
  qed
qed

lemma echo_sorted:
  assumes run: "Put w d p f = (res, tr)"
    and echo: "\<forall>(k, n, r) \<in> set (transfers tr).
                 \<forall>part. part_of_response (http_post_upload w r) = Inr part \<longrightarrow> PartNo part = k"
    and nos: "map fst (chunk_parts w tr) = [1..m]"
  shows "sort_key PartNo (map snd (chunk_parts w tr)) = map snd (chunk_parts w tr)"
proof -
  have "PartNo part = k" if "(k, part) \<in> set (chunk_parts w tr)" for k part
    using chunk_parts_sources [OF that]
  proof
    assume "\<exists>written. (k, part, written) \<in> set (skips tr)"
    then obtain written where "(k, part, written) \<in> set (skips tr)" ..
    from Put_skips_registry [OF run this] show ?thesis
      by (simp add: registry_def existing_map_PartNo)
  next
    assume "\<exists>n r. (k, n, r) \<in> set (transfers tr) \<and> part_of_response (http_post_upload w r) = Inr part"
    with echo show ?thesis by fastforce
  qed
  then have "\<forall>(k, part) \<in> set (chunk_parts w tr). PartNo part = k" by auto
  from keyed_parts [OF this] nos have "map PartNo (map snd (chunk_parts w tr)) = [1..m]" by simp
  then have "sorted (map PartNo (map snd (chunk_parts w tr)))" by simp
  then show ?thesis by (rule sort_key_id_if_sorted)
qed

text \<open>The equations that evaluate a run on concrete collaborators.\<close>

lemmas run_defs = Put_def a_world_def a_drive_def a_file_def a_part_def echo_server_def mute_server_def
  no_id_server_def failing_server_def file_created_def three_chunks_def no_parts_def
  first_part_stored_def one_chunk_def large_file_def two_and_a_half_def stale_part_def two_chunks_def
  chunk_bytes_def total_chunks_def upload_info_of_def initial_state_def registry_def upload_id_def
  existing_map_def parent_path_def create_file_request_def file_chunks_def
  mul64_def add64_def sub64_def quo64_def wrap64_def
  upload_loop.simps chunk_step_def skip_chunk_def transfer_chunk_def chunk_length_def chunk_name_def
  upload_request_of_def LimitReader_def CopyN_Discard_def progress_value_def
  Itoa_def fmt_03d_def digits.simps digit_char_def ParseInt_def is_digit_def digits_value_def
  FormatBool_def getMD5Hash_def session_text_def EncodeToString_def hex_char_def Let_def
  chunk_nos_def skips_def transfers_def progress_values_def commits_def lookups_def
  chunk_lengths_def chunk_parts_def


subsection \<open>A file of unknown size\<close>

text \<open>
  C8. A file that reports a negative size is refused with the error for an unknown size,
  and nothing has happened by then: no registry lookup, no chunk transfer, no commit
  (the list of events is empty).
\<close>

theorem Put_negative_size:
  "GetSize file < 0 \<Longrightarrow> Put w d dstPath file = (Inl UnknownSize, [])"
  by (simp add: Put_def)

theorem Put_negative_size_witness:
  "GetSize (a_file (- 1) ''abc'') < 0 \<and>
   Put (a_world no_parts echo_server) (a_drive 1 False) ''/'' (a_file (- 1) ''abc'')
     = (Inl UnknownSize, [])"
  using Put_negative_size [of "a_file (- 1) ''abc''" "a_world no_parts echo_server"
      "a_drive 1 False" "''/''"]
  by (simp add: a_file_def)

subsection \<open>A failed transfer\<close>

text \<open>
  C2 (as amended). When the transfer of chunk \<open>k\<close> is answered by a transport error, by a
  status other than 200, by a body that does not decode, or by a part with a zero part id,
  \<^verbatim>\<open>Put\<close> returns the error made from that answer, and that transfer is the last event:
  no later chunk is attempted (the chunks handled are 1 to \<open>k\<close>) and no create-file call
  is made. The error is the fixed message of a missing part id, or carries the text of the
  transport error, of the response body or of the decoder; \<^verbatim>\<open>Put\<close> adds no chunk number.
\<close>

theorem failed_transfer_aborts:
  assumes run: "Put w d dstPath file = (res, tr)"
    and tf: "(k, n, r) \<in> set (transfers tr)"
    and bad: "(\<exists>m. http_post_upload w r = TransportErr m) \<or>
              (\<exists>status text decoded. http_post_upload w r = Resp status text decoded \<and> status \<noteq> 200) \<or>
              (\<exists>text m. http_post_upload w r = Resp 200 text (Inl m)) \<or>
              (\<exists>text part. http_post_upload w r = Resp 200 text (Inr part) \<and> PartId part = 0)"
  shows "(\<exists>e. res = Inl e \<and> part_of_response (http_post_upload w r) = Inl e \<and>
            (e = MissingPartId \<or> (\<exists>m. e = UploadChunkFailed m) \<or> (\<exists>m. e = ParseChunkFailed m))) \<and>
         last tr = Transfer k n r \<and> commits tr = [] \<and> chunk_nos tr = [1..k]"
proof -
  let ?u = "upload_info_of w d dstPath file"
  let ?st = "final_state w d dstPath file"
  from bad_response [OF bad] obtain e where
    e: "part_of_response (http_post_upload w r) = Inl e"
    and kind: "e = MissingPartId \<or> (\<exists>m. e = UploadChunkFailed m) \<or> (\<exists>m. e = ParseChunkFailed m)"
    by blast
  have ne: "tr \<noteq> []" using tf by (auto simp add: transfers_def)
  from Put_started [OF run ne] have sz: "0 \<le> GetSize file" and cs: "chunk_bytes d \<noteq> 0"
    by simp_all
  have post: "loop_post w ?u ?st" by (rule final_post)
  show ?thesis
  proof (cases "abort ?st")
    case None
    with post have ok: "events_ok w ?u (totalChunks ?u + 1) (trace ?st)"
      by (simp add: loop_post_def)
    from Put_committed [OF sz cs None] run
    have "transfers tr = transfers (trace ?st)" by (auto simp add: transfers_def)
    with tf events_ok_transfers [OF ok] e show ?thesis by fastforce
  next
    case (Some e')
    with post obtain j n' r' pre where
      tr': "trace ?st = pre @ [Transfer j n' r']"
      and e': "part_of_response (http_post_upload w r') = Inl e'"
      and j: "1 \<le> j" and ok: "events_ok w ?u j pre"
      by (auto simp add: loop_post_def)
    from Put_aborted [OF sz cs Some] run have res: "res = Inl e'" and tr: "tr = trace ?st"
      by simp_all
    have "(k, n, r) \<notin> set (transfers pre)"
      using events_ok_transfers [OF ok] e by fastforce
    with tf tr tr' have same: "k = j" "n = n'" "r = r'" by (auto simp add: transfers_def)
    with e e' have "e' = e" by simp
    moreover have "chunk_nos tr = [1..k]"
      using ok tr tr' same j by (simp add: events_ok_def chunk_nos_def upto_snoc)
    moreover have "commits tr = []"
      using ok tr tr' by (simp add: events_ok_def commits_def)
    ultimately show ?thesis using res tr tr' same e kind by simp
  qed
qed


theorem failed_transfer_aborts_witness:
  "fst (Put (a_world no_parts (failing_server 2)) (a_drive 1 False) ''/'' three_chunks)
     = Inl (UploadChunkFailed ''internal error'') \<and>
   chunk_nos (snd (Put (a_world no_parts (failing_server 2)) (a_drive 1 False) ''/'' three_chunks)) = [1, 2] \<and>
   commits (snd (Put (a_world no_parts (failing_server 2)) (a_drive 1 False) ''/'' three_chunks)) = []"
proof -
  let ?w = "a_world no_parts (failing_server 2)"
  let ?d = "a_drive 1 False"
  let ?P = "Put ?w ?d ''/'' three_chunks"
  let ?r = "upload_request_of ?w ?d (upload_info_of ?w ?d ''/'' three_chunks) 2 0
              (replicate 1048576 CHR ''x'')"
  have run: "?P = (fst ?P, snd ?P)" by simp
  have tf: "(2, 1048576, ?r) \<in> set (transfers (snd ?P))" by (simp add: run_defs)
  have bad: "http_post_upload ?w ?r = Resp 500 ''internal error'' (Inl ''no json'')"
    by (simp add: run_defs)
  from failed_transfer_aborts [OF run tf] bad show ?thesis by (auto simp add: upto_small)
qed

text \<open>
  The claim as stated also wants the error to name the failing chunk. It does not: an
  upload whose first chunk comes back without a part id and one whose second chunk does
  return the same error.
\<close>

theorem error_without_chunk_number:
  "fst (Put (a_world no_parts (no_id_server 1)) (a_drive 1 False) ''/'' three_chunks)
     = fst (Put (a_world no_parts (no_id_server 2)) (a_drive 1 False) ''/'' three_chunks) \<and>
   fst (Put (a_world no_parts (no_id_server 1)) (a_drive 1 False) ''/'' three_chunks) = Inl MissingPartId \<and>
   chunk_nos (snd (Put (a_world no_parts (no_id_server 1)) (a_drive 1 False) ''/'' three_chunks)) = [1] \<and>
   chunk_nos (snd (Put (a_world no_parts (no_id_server 2)) (a_drive 1 False) ''/'' three_chunks)) = [1, 2]"
  by (simp add: run_defs)

subsection \<open>A registry that cannot be read\<close>

text \<open>
  C6. When the lookup of the existing parts ends in a transport error, in a status other
  than 200, or in a body that does not decode, \<^verbatim>\<open>Put\<close> does not abort: its result and its
  events are those of the same upload against a registry that answers 200 with no parts.
  No chunk is skipped, and an upload that reaches the commit has transferred every planned
  chunk, 1 to \<open>totalChunks\<close>, in order.
\<close>

theorem registry_failure_is_no_parts:
  assumes "(\<exists>m. http_get_uploads w (''/api/uploads/'' @ upload_id w d p f) = TransportErr m) \<or>
           (\<exists>status text decoded.
              http_get_uploads w (''/api/uploads/'' @ upload_id w d p f) = Resp status text decoded \<and>
              status \<noteq> 200) \<or>
           (\<exists>text m. http_get_uploads w (''/api/uploads/'' @ upload_id w d p f) = Resp 200 text (Inl m))"
  shows "Put w d p f = Put (w\<lparr>http_get_uploads := \<lambda>url. Resp 200 [] (Inr [])\<rparr>) d p f \<and>
         skips (snd (Put w d p f)) = [] \<and>
         (commits (snd (Put w d p f)) \<noteq> [] \<longrightarrow>
            map fst (transfers (snd (Put w d p f))) = [1..total_chunks d f])"
proof -
  let ?w' = "w\<lparr>http_get_uploads := \<lambda>url. Resp 200 [] (Inr [])\<rparr>"
  have reg: "registry w d p f = Map.empty"
    using registry_parts_failed [OF assms] by (simp add: registry_def existing_map_def)
  have id: "upload_id ?w' d p f = upload_id w d p f"
    by (simp add: upload_id_def getMD5Hash_def)
  have reg': "registry ?w' d p f = Map.empty"
    by (simp add: registry_def existing_map_def)
  have "upload_info_of ?w' d p f = upload_info_of w d p f"
    by (simp add: upload_info_of_def reg reg' id)
  moreover have "initial_state ?w' d p f = initial_state w d p f"
    by (simp add: initial_state_def id)
  ultimately have same: "Put w d p f = Put ?w' d p f"
    by (simp add: Put_def upload_loop_get_irrelevant created_object_get_irrelevant
        create_file_request_def Let_def split: option.splits)
  have run: "Put w d p f = (fst (Put w d p f), snd (Put w d p f))" by simp
  have none: "skips (snd (Put w d p f)) = []"
  proof (rule ccontr)
    assume "skips (snd (Put w d p f)) \<noteq> []"
    then obtain k e written where "(k, e, written) \<in> set (skips (snd (Put w d p f)))"
      by (cases "skips (snd (Put w d p f))") auto
    from Put_skips_registry [OF run this] reg show False by simp
  qed
  have "map fst (transfers (snd (Put w d p f))) = [1..total_chunks d f]"
    if "commits (snd (Put w d p f)) \<noteq> []"
  proof -
    from Put_events_ok [OF run that] obtain pre where
      tr: "snd (Put w d p f) = pre @ [PostFiles (create_file_request w d p f (map snd (chunk_parts w pre)))]"
      and ok: "events_ok w (upload_info_of w d p f) (total_chunks d f + 1) pre"
      by auto
    from ok have "chunk_nos pre = [1..total_chunks d f]" by (simp add: events_ok_def)
    with tr have "chunk_nos (snd (Put w d p f)) = [1..total_chunks d f]"
      by (simp add: chunk_nos_def)
    with skips_none_transfers [OF none] show ?thesis by simp
  qed
  with same none show ?thesis by blast
qed


theorem registry_failure_is_no_parts_witness:
  "Put (a_world (TransportErr ''connection refused'') echo_server) (a_drive 1 False) ''/'' three_chunks
     = Put ((a_world (TransportErr ''connection refused'') echo_server)
              \<lparr>http_get_uploads := \<lambda>url. Resp 200 [] (Inr [])\<rparr>) (a_drive 1 False) ''/'' three_chunks \<and>
   skips (snd (Put (a_world (TransportErr ''connection refused'') echo_server) (a_drive 1 False)
                 ''/'' three_chunks)) = [] \<and>
   map fst (transfers (snd (Put (a_world (TransportErr ''connection refused'') echo_server)
                              (a_drive 1 False) ''/'' three_chunks))) = [1, 2, 3]"
proof -
  let ?w = "a_world (TransportErr ''connection refused'') echo_server"
  let ?d = "a_drive 1 False"
  have down: "http_get_uploads ?w (''/api/uploads/'' @ upload_id ?w ?d ''/'' three_chunks)
                = TransportErr ''connection refused''"
    by (simp add: a_world_def)
  have committed: "commits (snd (Put ?w ?d ''/'' three_chunks)) \<noteq> []"
    by (simp add: run_defs)
  have three: "total_chunks ?d three_chunks = 3"
    by (simp add: run_defs)
  have bad: "(\<exists>m. http_get_uploads ?w (''/api/uploads/'' @ upload_id ?w ?d ''/'' three_chunks) = TransportErr m) \<or>
      (\<exists>status text decoded.
         http_get_uploads ?w (''/api/uploads/'' @ upload_id ?w ?d ''/'' three_chunks) = Resp status text decoded \<and>
         status \<noteq> 200) \<or>
      (\<exists>text m. http_get_uploads ?w (''/api/uploads/'' @ upload_id ?w ?d ''/'' three_chunks) = Resp 200 text (Inl m))"
    using down by blast
  note r = registry_failure_is_no_parts [OF bad]
  from r have all: "commits (snd (Put ?w ?d ''/'' three_chunks)) \<noteq> [] \<longrightarrow>
      map fst (transfers (snd (Put ?w ?d ''/'' three_chunks))) = [1..total_chunks ?d three_chunks]"
    by blast
  with committed three have "map fst (transfers (snd (Put ?w ?d ''/'' three_chunks))) = [1, 2, 3]"
    by (simp add: upto_small)
  with r show ?thesis by blast
qed

subsection \<open>The session identifier\<close>

text \<open>
  C7. The session identifier is a function of the destination path, the file name, the
  file size and the owner id alone: two calls that agree on these four (and hash with the
  same MD5) derive the same identifier, whatever else differs (the configuration, the
  content of the stream, the answers of the server). It is this identifier that \<^verbatim>\<open>Put\<close>
  looks up in the registry and sends every chunk to.
\<close>

theorem session_identity_deterministic:
  assumes "md5_Sum w1 = md5_Sum w2" and "GetName f1 = GetName f2" and "GetSize f1 = GetSize f2"
    and "userId d1 = userId d2"
  shows "upload_id w1 d1 p f1 = upload_id w2 d2 p f2 \<and>
         set (lookups (snd (Put w1 d1 p f1))) \<subseteq> {''/api/uploads/'' @ upload_id w1 d1 p f1} \<and>
         (\<forall>(k, n, r) \<in> set (transfers (snd (Put w1 d1 p f1))).
            uploadURL r = (if UploadHost d1 \<noteq> [] then UploadHost d1 else ApiHost d1)
                            @ ''/api/uploads/'' @ upload_id w1 d1 p f1)"
proof -
  have "upload_id w1 d1 p f1 = upload_id w2 d2 p f2"
    using assms by (simp add: upload_id_def getMD5Hash_def)
  moreover have "\<forall>(k, n, r) \<in> set (transfers (snd (Put w1 d1 p f1))).
            uploadURL r = (if UploadHost d1 \<noteq> [] then UploadHost d1 else ApiHost d1)
                            @ ''/api/uploads/'' @ upload_id w1 d1 p f1"
    using Put_requests [of w1 d1 p f1]
    by (auto simp add: upload_request_of_def upload_info_of_def)
  ultimately show ?thesis using Put_lookups [of w1 d1 p f1] by blast
qed

theorem session_identity_deterministic_witness:
  "upload_id (a_world no_parts echo_server) (a_drive 1 False) ''/'' three_chunks
     = upload_id (a_world (TransportErr ''down'') mute_server) (a_drive 2 True) ''/''
         (a_file 3000000 ''short'') \<and>
   (upload_id (a_world no_parts echo_server) (a_drive 1 False) ''/'' three_chunks
      = ''3a612e62696e3a333030303030303a39'' \<and>
    lookups (snd (Put (a_world no_parts echo_server) (a_drive 1 False) ''/'' three_chunks))
      = [''/api/uploads/3a612e62696e3a333030303030303a39''] \<and>
    lookups (snd (Put (a_world (TransportErr ''down'') mute_server) (a_drive 2 True) ''/''
                    (a_file 3000000 ''short'')))
      = [''/api/uploads/3a612e62696e3a333030303030303a39''])"
proof -
  let ?w1 = "a_world no_parts echo_server" and ?w2 = "a_world (TransportErr ''down'') mute_server"
  let ?d1 = "a_drive 1 False" and ?d2 = "a_drive 2 True"
  let ?f2 = "a_file 3000000 ''short''"
  have md5: "md5_Sum ?w1 = md5_Sum ?w2" by (simp add: a_world_def)
  have name: "GetName three_chunks = GetName ?f2" by (simp add: three_chunks_def a_file_def)
  have size: "GetSize three_chunks = GetSize ?f2" by (simp add: three_chunks_def a_file_def)
  have owner: "userId ?d1 = userId ?d2" by (simp add: a_drive_def)
  from session_identity_deterministic [OF md5 name size owner, of "''/''"]
  have same: "upload_id ?w1 ?d1 ''/'' three_chunks = upload_id ?w2 ?d2 ''/'' ?f2"
    by blast
  have runs: "upload_id ?w1 ?d1 ''/'' three_chunks = ''3a612e62696e3a333030303030303a39'' \<and>
    lookups (snd (Put ?w1 ?d1 ''/'' three_chunks)) = [''/api/uploads/3a612e62696e3a333030303030303a39''] \<and>
    lookups (snd (Put ?w2 ?d2 ''/'' ?f2)) = [''/api/uploads/3a612e62696e3a333030303030303a39'']"
    by (simp add: run_defs)
  from same runs show ?thesis ..
qed

subsection \<open>Skipping a chunk the registry holds\<close>



subsection \<open>The names of the chunks\<close>



subsection \<open>The chunk plan\<close>

text \<open>
  C3 (as amended). Let the file report \<open>S \<ge> 0\<close> bytes and the configured chunk size be
  \<open>M > 0\<close> megabytes, with \<open>S + M * 2^20 < 2^63\<close> so that nothing overflows. The chunk size
  in bytes is \<open>C = M * 2^20\<close> and the number of chunks is the ceiling of \<open>S / C\<close>. In an upload
  that reaches the commit (against a registry that is empty or holds parts of the planned
  lengths) the chunks handled are as many, their lengths sum to \<open>S\<close>, and every chunk but
  the last has length \<open>C\<close>. For 1200000000 bytes and 500 megabytes these are three chunks of
  524288000, 524288000 and 151424000 bytes.
\<close>

theorem chunks_planned:
  assumes size: "0 \<le> GetSize f" and mb: "0 < ChunkSize d"
    and fits: "GetSize f + ChunkSize d * 1048576 < 2 ^ 63"
    and reg: "registry_matches_plan w d p f"
    and run: "Put w d p f = (res, tr)" and commit: "commits tr \<noteq> []"
  shows "chunk_bytes d = ChunkSize d * 1048576 \<and>
         total_chunks d f = \<lceil>real_of_int (GetSize f) / real_of_int (chunk_bytes d)\<rceil> \<and>
         length (chunk_lengths tr) = nat (total_chunks d f) \<and>
         sum_list (chunk_lengths tr) = GetSize f \<and>
         (\<forall>i. Suc i < length (chunk_lengths tr) \<longrightarrow> chunk_lengths tr ! i = chunk_bytes d)"
proof -
  let ?u = "upload_info_of w d p f" and ?st = "final_state w d p f"
  let ?S = "GetSize f" and ?C = "chunk_bytes d" and ?T = "total_chunks d f"
  note plan = Put_plan_ok [OF size mb fits reg]
  have u: "fileSize ?u = ?S" "chunkSize ?u = ?C" "totalChunks ?u = ?T"
    by (simp_all add: upload_info_of_def)
  have T0: "0 \<le> ?T" using total_sign(1) [OF size plan(4)] plan(3) by simp
  have ceil: "?T = \<lceil>real_of_int ?S / real_of_int ?C\<rceil>"
    using ceil_div [OF plan(4), of ?S] plan(3) by simp
  have ne: "tr \<noteq> []" using commit by (auto simp add: commits_def)
  from Put_started [OF run ne] have cs: "chunk_bytes d \<noteq> 0" by simp
  have no_abort: "abort ?st = None"
  proof (cases "abort ?st")
    case (Some e)
    with final_post [of w d p f] obtain j n r pre where
      "trace ?st = pre @ [Transfer j n r]" "events_ok w ?u j pre"
      by (auto simp add: loop_post_def)
    with Put_aborted [OF size cs Some] run have "commits tr = []"
      by (auto simp add: events_ok_def commits_def)
    with commit show ?thesis by simp
  qed simp
  from Put_committed [OF size cs no_abort] run
  have "chunk_lengths tr = chunk_lengths (trace ?st)" by (auto simp add: chunk_lengths_def)
  moreover from final_plan [OF plan(1)] no_abort
  have "chunk_lengths (trace ?st) = map (\<lambda>k. offset_after ?u k - offset_after ?u (k - 1)) [1..?T]"
    by (auto simp add: plan_post_def u)
  ultimately have lens: "chunk_lengths tr = map (\<lambda>k. offset_after ?u k - offset_after ?u (k - 1)) [1..?T]"
    by simp
  have len: "length (chunk_lengths tr) = nat ?T" by (simp add: lens)
  have "offset_after ?u ?T = ?S"
  proof (cases "?T = 0")
    case True
    with total_sign(2) [OF size plan(4)] plan(3) have "?S = 0" by simp
    with True show ?thesis by (simp add: offset_after_def u)
  next
    case False
    with T0 have "1 \<le> ?T" by simp
    from offset_facts(2) [OF plan(1), of ?T] this show ?thesis by (simp add: u)
  qed
  moreover have "offset_after ?u 0 = 0" using size by (simp add: offset_after_def u)
  ultimately have total: "sum_list (chunk_lengths tr) = ?S"
    using telescope [OF T0, of "offset_after ?u"] by (simp add: lens)
  have full: "chunk_lengths tr ! i = ?C" if "Suc i < length (chunk_lengths tr)" for i
  proof -
    from that len have i: "1 + int i < ?T" by simp
    then have "[1..?T] ! i = 1 + int i" by (intro nth_upto) simp
    with that len have "chunk_lengths tr ! i
        = offset_after ?u (1 + int i) - offset_after ?u (1 + int i - 1)"
      by (simp add: lens)
    also have "\<dots> = ?C"
      using offset_facts(1,2) [OF plan(1), of "1 + int i"] i by (simp add: u algebra_simps)
    finally show ?thesis .
  qed
  from plan(2) ceil len total full show ?thesis by blast
qed

theorem chunks_planned_witness:
  "total_chunks (a_drive 500 False) large_file = 3 \<and>
   length (chunk_lengths (snd (Put (a_world no_parts echo_server) (a_drive 500 False) ''/'' large_file))) = 3 \<and>
   sum_list (chunk_lengths (snd (Put (a_world no_parts echo_server) (a_drive 500 False) ''/'' large_file)))
     = 1200000000 \<and>
   chunk_lengths (snd (Put (a_world no_parts echo_server) (a_drive 500 False) ''/'' large_file)) ! 0
     = 524288000 \<and>
   chunk_lengths (snd (Put (a_world no_parts echo_server) (a_drive 500 False) ''/'' large_file)) ! 1
     = 524288000"
proof -
  let ?w = "a_world no_parts echo_server" and ?d = "a_drive 500 False"
  let ?P = "Put ?w ?d ''/'' large_file"
  have size: "0 \<le> GetSize large_file" by (simp add: large_file_def a_file_def)
  have mb: "0 < ChunkSize ?d" by (simp add: a_drive_def)
  have fits: "GetSize large_file + ChunkSize ?d * 1048576 < 2 ^ 63"
    by (simp add: large_file_def a_file_def a_drive_def)
  have reg: "registry_matches_plan ?w ?d ''/'' large_file"
    by (simp add: registry_matches_plan_def registry_def existing_map_def a_world_def no_parts_def)
  have run: "?P = (fst ?P, snd ?P)" by simp
  have commit: "commits (snd ?P) \<noteq> []" by (simp add: run_defs)
  have tc: "total_chunks ?d large_file = 3" and cb: "chunk_bytes ?d = 524288000"
    by (simp_all add: run_defs)
  note plan = chunks_planned [OF size mb fits reg run commit]
  from plan tc have len: "length (chunk_lengths (snd ?P)) = 3" by simp
  from plan have sum: "sum_list (chunk_lengths (snd ?P)) = 1200000000"
    by (simp add: large_file_def a_file_def)
  from plan have "\<forall>i. Suc i < length (chunk_lengths (snd ?P)) \<longrightarrow>
      chunk_lengths (snd ?P) ! i = chunk_bytes ?d"
    by blast
  with len cb have "chunk_lengths (snd ?P) ! 0 = 524288000" "chunk_lengths (snd ?P) ! 1 = 524288000"
    by simp_all
  with tc len sum show ?thesis by blast
qed

text \<open>
  The example of the claim as stated, for the same file and configuration, gives a last
  chunk of 200 megabytes. The chunks of the code are 500 * 2^20 bytes long, which leaves
  151424000 bytes for the last one: the lengths are not 500, 500 and 200 megabytes in
  either reading of a megabyte. The two conditions of the amended claim are needed as
  well: for a size of \<open>2^63 - 1\<close> the sum of line 292 wraps around and the number of chunks
  is negative; and behind a registry part of two megabytes the chunks of one megabyte of a
  file of 2621440 bytes are counted with 2097152, 1048576 and - 524288 bytes.
\<close>

theorem planned_lengths_example:
  "chunk_lengths (snd (Put (a_world no_parts echo_server) (a_drive 500 False) ''/'' large_file))
     = [524288000, 524288000, 151424000] \<and>
   chunk_lengths (snd (Put (a_world no_parts echo_server) (a_drive 500 False) ''/'' large_file))
     \<noteq> [500 * 1048576, 500 * 1048576, 200 * 1048576] \<and>
   chunk_lengths (snd (Put (a_world no_parts echo_server) (a_drive 500 False) ''/'' large_file))
     \<noteq> [500 * 1000000, 500 * 1000000, 200 * 1000000] \<and>
   total_chunks (a_drive 1 False) (a_file (2 ^ 63 - 1) []) = - 8796093022207 \<and>
   chunk_lengths (snd (Put (a_world stale_part echo_server) (a_drive 1 False) ''/'' two_and_a_half))
     = [2097152, 1048576, - 524288]"
  by (simp add: run_defs)

subsection \<open>Progress\<close>

text \<open>
  C5 (as amended). Under the conditions of the plan (\<open>S \<ge> 0\<close>, a chunk size of \<open>M > 0\<close>
  megabytes, \<open>S + M * 2^20 < 2^63\<close>, and a registry whose parts for planned chunks have the
  planned lengths) the values passed to the progress callback never decrease; and when
  the file is not empty and the upload reaches the commit, the last value is 100, reported
  after chunks 1 to \<open>totalChunks\<close> have all been handled and immediately before the
  create-file call.
\<close>

theorem progress_monotone:
  assumes size: "0 \<le> GetSize f" and mb: "0 < ChunkSize d"
    and fits: "GetSize f + ChunkSize d * 1048576 < 2 ^ 63"
    and reg: "registry_matches_plan w d p f"
    and run: "Put w d p f = (res, tr)"
  shows "sorted_wrt float_le (progress_values tr) \<and>
         (0 < GetSize f \<longrightarrow>
            (\<forall>req \<in> set (commits tr).
               \<exists>pre. tr = pre @ [Progress (Finite 100), PostFiles req] \<and>
                     chunk_nos pre = [1..total_chunks d f]))"
proof (cases "tr = []")
  case True
  then show ?thesis by (simp add: progress_values_def commits_def)
next
  case False
  let ?u = "upload_info_of w d p f" and ?st = "final_state w d p f"
  let ?S = "GetSize f" and ?C = "chunk_bytes d" and ?T = "total_chunks d f"
  let ?pv = "\<lambda>k. progress_value (offset_after ?u k) (fileSize ?u)"
  note plan = Put_plan_ok [OF size mb fits reg]
  have u: "fileSize ?u = ?S" "chunkSize ?u = ?C" "totalChunks ?u = ?T"
    by (simp_all add: upload_info_of_def)
  from Put_started [OF run False] have cs: "chunk_bytes d \<noteq> 0" by simp
  from final_plan [OF plan(1)] obtain m m' where
    pvs: "progress_values (trace ?st) = map ?pv [1..m']" and m: "m \<le> ?T" "m' \<le> m"
    and fin: "abort ?st = None \<longrightarrow> m = ?T \<and> m' = ?T \<and> (1 \<le> ?T \<longrightarrow> last (trace ?st) = Progress (?pv ?T))"
    by (auto simp add: plan_post_def u)
  from Put_trace [OF run False]
  have same: "progress_values tr = progress_values (trace ?st)"
    by (auto simp add: progress_values_def)
  have sorted: "sorted_wrt float_le (progress_values tr)"
  proof (cases "?S = 0")
    case True
    with total_sign(2) [OF size plan(4)] plan(3) have "?T = 0" by simp
    with m have "[1..m'] = []" by simp
    with same pvs show ?thesis by simp
  next
    case False
    with size have "0 < fileSize ?u" by (simp add: u)
    from progress_sorted [OF plan(1) this] same pvs show ?thesis by simp
  qed
  have final: "\<exists>pre. tr = pre @ [Progress (Finite 100), PostFiles req] \<and> chunk_nos pre = [1..?T]"
    if pos: "0 < ?S" and req: "req \<in> set (commits tr)" for req
  proof -
    have no_abort: "abort ?st = None"
    proof (cases "abort ?st")
      case (Some e)
      with final_post [of w d p f] obtain j n r pre where
        "trace ?st = pre @ [Transfer j n r]" "events_ok w ?u j pre"
        by (auto simp add: loop_post_def)
      with Put_aborted [OF size cs Some] run have "commits tr = []"
        by (auto simp add: events_ok_def commits_def)
      with req show ?thesis by simp
    qed simp
    with final_post [of w d p f] have ok: "events_ok w ?u (?T + 1) (trace ?st)"
      by (simp add: loop_post_def u)
    then have nos: "chunk_nos (trace ?st) = [1..?T]" and none: "commits (trace ?st) = []"
      by (simp_all add: events_ok_def)
    from Put_committed [OF size cs no_abort] run
    have tr: "tr = trace ?st @ [PostFiles (create_file_request w d p f (partsToCommit ?st))]"
      by simp
    with none req have r: "req = create_file_request w d p f (partsToCommit ?st)"
      by (simp add: commits_def)
    have T1: "1 \<le> ?T"
      using total_sign [OF size plan(4)] plan(3) pos by (cases "?T = 0") auto
    from offset_facts(2) [OF plan(1), of ?T] T1 have "offset_after ?u ?T = ?S" by (simp add: u)
    with pos have "?pv ?T = Finite 100" by (simp add: progress_value_def u)
    with fin no_abort T1 have last: "last (trace ?st) = Progress (Finite 100)" by simp
    have ne: "trace ?st \<noteq> []"
      using final_lookups [of w d p f] by (auto simp add: lookups_def)
    then have "trace ?st = butlast (trace ?st) @ [Progress (Finite 100)]"
      using last by (metis append_butlast_last_id)
    with tr r have "tr = butlast (trace ?st) @ [Progress (Finite 100), PostFiles req]"
      by (metis append_Cons append_Nil append_assoc)
    moreover have "chunk_nos (butlast (trace ?st)) = [1..?T]"
      using chunk_nos_butlast [OF ne last] nos by simp
    ultimately show ?thesis by blast
  qed
  from sorted final show ?thesis by blast
qed

theorem progress_monotone_witness:
  "sorted_wrt float_le
     (progress_values (snd (Put (a_world first_part_stored echo_server) (a_drive 1 False) ''/'' three_chunks))) \<and>
   length (progress_values (snd (Put (a_world first_part_stored echo_server) (a_drive 1 False) ''/''
                                   three_chunks))) = 3 \<and>
   (\<exists>pre req. snd (Put (a_world first_part_stored echo_server) (a_drive 1 False) ''/'' three_chunks)
                 = pre @ [Progress (Finite 100), PostFiles req] \<and>
               chunk_nos pre = [1, 2, 3])"
proof -
  let ?w = "a_world first_part_stored echo_server" and ?d = "a_drive 1 False"
  let ?P = "Put ?w ?d ''/'' three_chunks"
  have size: "0 \<le> GetSize three_chunks" and pos: "0 < GetSize three_chunks"
    by (simp_all add: three_chunks_def a_file_def)
  have mb: "0 < ChunkSize ?d" by (simp add: a_drive_def)
  have fits: "GetSize three_chunks + ChunkSize ?d * 1048576 < 2 ^ 63"
    by (simp add: three_chunks_def a_file_def a_drive_def)
  have tc: "total_chunks ?d three_chunks = 3" and cb: "chunk_bytes ?d = 1048576"
    by (simp_all add: run_defs)
  have held: "registry ?w ?d ''/'' three_chunks = [1 \<mapsto> a_part 11 1 1048576]"
    by (simp add: registry_def existing_map_def a_world_def first_part_stored_def a_part_def)
  have reg: "registry_matches_plan ?w ?d ''/'' three_chunks"
    by (auto simp add: registry_matches_plan_def held tc cb a_part_def)
  have run: "?P = (fst ?P, snd ?P)" by simp
  note mono = progress_monotone [OF size mb fits reg run]
  have count: "length (progress_values (snd ?P)) = 3" by (simp add: run_defs)
  have "commits (snd ?P) \<noteq> []" by (simp add: run_defs)
  then obtain req where "req \<in> set (commits (snd ?P))" by (cases "commits (snd ?P)") auto
  with mono pos tc have "\<exists>pre. snd ?P = pre @ [Progress (Finite 100), PostFiles req] \<and>
      chunk_nos pre = [1, 2, 3]"
    by (auto simp add: upto_small)
  with mono count show ?thesis by blast
qed

text \<open>
  Without the condition on the registry the claim fails. A file of 2621440 bytes is
  uploaded in chunks of one megabyte while the registry holds a first part of two
  megabytes: the skip reports 80, the second chunk is counted with a full megabyte and
  reports 120, and the last chunk brings the value back to 100. And an empty file is
  committed with no value reported at all.
\<close>

theorem progress_not_monotone:
  "progress_values (snd (Put (a_world stale_part echo_server) (a_drive 1 False) ''/'' two_and_a_half))
     = [Finite 80, Finite 120, Finite 100] \<and>
   \<not> sorted_wrt float_le
       (progress_values (snd (Put (a_world stale_part echo_server) (a_drive 1 False) ''/'' two_and_a_half))) \<and>
   progress_values (snd (Put (a_world no_parts echo_server) (a_drive 1 False) ''/'' (a_file 0 []))) = [] \<and>
   commits (snd (Put (a_world no_parts echo_server) (a_drive 1 False) ''/'' (a_file 0 []))) \<noteq> []"
  by (simp add: run_defs float_le_def)

subsection \<open>The manifest\<close>




subsection \<open>Resuming an upload\<close>

text \<open>
  C1 (as amended). The events of every upload read the stream in order: a skip discards
  the recorded size of its part from the current position (exactly that many bytes when
  the stream still holds them). A chunk is skipped only with the part the registry holds
  for it, and sent only when the registry holds none. In an upload that reaches the
  commit every planned chunk is handled once, in ascending order, the manifest has one
  entry for each, and the part of every chunk skipped is in it; when the answers to the
  transfers carry the numbers of their chunks, the manifest is in chunk order. With three
  chunks and a registry that holds chunk 1, chunks 2 and 3 are sent and the manifest is
  the parts of chunks 1, 2, 3.
\<close>

theorem resume_skips_existing:
  assumes run: "Put w d p f = (res, tr)"
  shows "replay (stream_data f) tr \<noteq> None \<and>
         (\<forall>(k, e, written) \<in> set (skips tr). registry w d p f k = Some e) \<and>
         (\<forall>(k, n, r) \<in> set (transfers tr). registry w d p f k = None) \<and>
         (\<forall>req \<in> set (commits tr).
            chunk_nos tr = [1..total_chunks d f] \<and>
            length (Parts req) = nat (total_chunks d f) \<and>
            (\<forall>(k, e, written) \<in> set (skips tr).
               \<lparr>fp_ID = PartId e, fp_Salt = pf_Salt e\<rparr> \<in> set (Parts req)) \<and>
            ((\<forall>(k, n, r) \<in> set (transfers tr).
                \<forall>part. part_of_response (http_post_upload w r) = Inr part \<longrightarrow> PartNo part = k) \<longrightarrow>
             map fst (chunk_parts w tr) = [1..total_chunks d f] \<and>
             Parts req = file_chunks (map snd (chunk_parts w tr))))"
proof -
  have a: "replay (stream_data f) tr \<noteq> None"
    using Put_replay [of f w d p] run by simp
  have b: "\<forall>(k, e, written) \<in> set (skips tr). registry w d p f k = Some e"
    using Put_skips_registry [OF run] by auto
  have c: "\<forall>(k, n, r) \<in> set (transfers tr). registry w d p f k = None"
    using Put_transfers_registry [OF run] by auto
  have d: "chunk_nos tr = [1..total_chunks d f] \<and>
            length (Parts req) = nat (total_chunks d f) \<and>
            (\<forall>(k, e, written) \<in> set (skips tr).
               \<lparr>fp_ID = PartId e, fp_Salt = pf_Salt e\<rparr> \<in> set (Parts req)) \<and>
            ((\<forall>(k, n, r) \<in> set (transfers tr).
                \<forall>part. part_of_response (http_post_upload w r) = Inr part \<longrightarrow> PartNo part = k) \<longrightarrow>
             map fst (chunk_parts w tr) = [1..total_chunks d f] \<and>
             Parts req = file_chunks (map snd (chunk_parts w tr)))"
    if commit: "req \<in> set (commits tr)" for req
  proof -
    note c = Put_commit [OF run commit]
    have "length (Parts req) = length (map fst (chunk_parts w tr))"
      by (simp add: c(3) file_chunks_def)
    then have len: "length (Parts req) = nat (total_chunks d f)" by (simp add: c(2))
    have reuse: "\<lparr>fp_ID = PartId e, fp_Salt = pf_Salt e\<rparr> \<in> set (Parts req)"
      if "(k, e, written) \<in> set (skips tr)" for k e written
    proof -
      from skips_in_chunk_parts [OF that] have "e \<in> set (map snd (chunk_parts w tr))"
        by force
      then show ?thesis by (auto simp add: c(3) file_chunks_def)
    qed
    have "Parts req = file_chunks (map snd (chunk_parts w tr))"
      if "\<forall>(k, n, r) \<in> set (transfers tr).
            \<forall>part. part_of_response (http_post_upload w r) = Inr part \<longrightarrow> PartNo part = k"
      using echo_sorted [OF run that c(2)] c(3) by simp
    with c(1,2) len reuse show ?thesis by blast
  qed
  from a b c d show ?thesis by blast
qed

theorem resume_skips_existing_witness:
  "skips (snd (Put (a_world first_part_stored echo_server) (a_drive 1 False) ''/'' three_chunks))
     = [(1, a_part 11 1 1048576, 1048576)] \<and>
   map fst (transfers (snd (Put (a_world first_part_stored echo_server) (a_drive 1 False) ''/'' three_chunks)))
     = [2, 3] \<and>
   chunk_nos (snd (Put (a_world first_part_stored echo_server) (a_drive 1 False) ''/'' three_chunks))
     = [1, 2, 3] \<and>
   map fp_ID (Parts (hd (commits (snd (Put (a_world first_part_stored echo_server) (a_drive 1 False) ''/''
                                         three_chunks))))) = [11, 22, 23]"
proof -
  let ?w = "a_world first_part_stored echo_server" and ?d = "a_drive 1 False"
  let ?P = "Put ?w ?d ''/'' three_chunks"
  have run: "?P = (fst ?P, snd ?P)" by simp
  have "commits (snd ?P) \<noteq> []" by (simp add: run_defs)
  then have commit: "hd (commits (snd ?P)) \<in> set (commits (snd ?P))" by simp
  have echo: "\<forall>(k, n, r) \<in> set (transfers (snd ?P)).
      \<forall>part. part_of_response (http_post_upload ?w r) = Inr part \<longrightarrow> PartNo part = k"
    by (simp add: run_defs)
  have tc: "total_chunks ?d three_chunks = 3" by (simp add: run_defs)
  have sk: "skips (snd ?P) = [(1, a_part 11 1 1048576, 1048576)]"
    and ts: "map fst (transfers (snd ?P)) = [2, 3]"
    and ids: "map PartId (map snd (chunk_parts ?w (snd ?P))) = [11, 22, 23]"
    by (simp_all add: run_defs)
  from resume_skips_existing [OF run] commit
  have nos: "chunk_nos (snd ?P) = [1..total_chunks ?d three_chunks]"
    and ordered: "(\<forall>(k, n, r) \<in> set (transfers (snd ?P)).
        \<forall>part. part_of_response (http_post_upload ?w r) = Inr part \<longrightarrow> PartNo part = k) \<longrightarrow>
      Parts (hd (commits (snd ?P))) = file_chunks (map snd (chunk_parts ?w (snd ?P)))"
    by blast+
  from ordered echo
  have "Parts (hd (commits (snd ?P))) = file_chunks (map snd (chunk_parts ?w (snd ?P)))"
    by blast
  then have "map fp_ID (Parts (hd (commits (snd ?P)))) = map PartId (map snd (chunk_parts ?w (snd ?P)))"
    by (simp add: file_chunks_def comp_def)
  with ids nos tc sk ts show ?thesis by (simp add: upto_small)
qed

text \<open>
  The scenario of the claim as stated, against a server that leaves the part number out
  of its answers: chunk 1 is skipped, chunks 2 and 3 are sent, and the committed manifest
  holds the parts of chunks 2, 3, 1 in this order. And from a stream that ends after three
  bytes the skip of a part of 1048576 bytes discards three.
\<close>

theorem resume_manifest_misordered:
  "map fst (skips (snd (Put (a_world first_part_stored mute_server) (a_drive 1 False) ''/'' three_chunks)))
     = [1] \<and>
   map fst (transfers (snd (Put (a_world first_part_stored mute_server) (a_drive 1 False) ''/'' three_chunks)))
     = [2, 3] \<and>
   map (map fp_ID \<circ> Parts)
     (commits (snd (Put (a_world first_part_stored mute_server) (a_drive 1 False) ''/'' three_chunks)))
     = [[22, 23, 11]] \<and>
   skips (snd (Put (a_world first_part_stored echo_server) (a_drive 1 False) ''/'' (a_file 3000000 ''abc'')))
     = [(1, a_part 11 1 1048576, 3)]"
  by (simp add: run_defs)

end
